theory Spec2Isabelle
  imports Main "HOL-Library.Sublist" "HOL-Library.AList"
begin

section \<open>The response extractor: Python regular expressions as data\<close>

text \<open>
  \<^verbatim>\<open>ResearchAgent._extract_json\<close> calls \<^verbatim>\<open>re.search\<close> twice. The two patterns only
  use literals, an optional literal, greedy and lazy stars over a character class, and one
  capturing group, so a pattern is a list of such items and the matcher is Python's
  backtracking search written out: a greedy star first tries to consume one more
  character and only then the rest of the pattern, a lazy star the other way round, an
  optional literal is tried before it is skipped. A Python string is a sequence of code
  points; \<^typ>\<open>string\<close> stands for those below 256.
\<close>

datatype rx =
    Lit string
  | Opt string
  | Star "char \<Rightarrow> bool"
  | LazyStar "char \<Rightarrow> bool"
  | GroupOpen
  | GroupClose

definition orelse :: "'a option \<Rightarrow> 'a option \<Rightarrow> 'a option" where
  "orelse a b = (case a of Some r \<Rightarrow> Some r | None \<Rightarrow> b)"

text \<open>
  \<open>rmatch ps s n g\<close> matches the pattern \<open>ps\<close> against \<open>s\<close>, the input from offset
  \<open>n\<close> of the attempt on; \<open>g\<close> is the span of group 1 so far. It returns the end offset
  of the first match in backtracking order and the span of group 1.
\<close>

fun rmatch :: "rx list \<Rightarrow> string \<Rightarrow> nat \<Rightarrow> nat \<times> nat \<Rightarrow> (nat \<times> nat \<times> nat) option" where
  "rmatch [] s n g = Some (n, g)"
| "rmatch (Lit l # ps) s n g =
     (if prefix l s then rmatch ps (drop (length l) s) (n + length l) g else None)"
| "rmatch (Opt l # ps) s n g =
     orelse (if prefix l s then rmatch ps (drop (length l) s) (n + length l) g else None)
            (rmatch ps s n g)"
| "rmatch (Star cls # ps) [] n g = rmatch ps [] n g"
| "rmatch (Star cls # ps) (x # xs) n g =
     (if cls x then orelse (rmatch (Star cls # ps) xs (Suc n) g) (rmatch ps (x # xs) n g)
      else rmatch ps (x # xs) n g)"
| "rmatch (LazyStar cls # ps) [] n g = rmatch ps [] n g"
| "rmatch (LazyStar cls # ps) (x # xs) n g =
     orelse (rmatch ps (x # xs) n g)
            (if cls x then rmatch (LazyStar cls # ps) xs (Suc n) g else None)"
| "rmatch (GroupOpen # ps) s n g = rmatch ps s n (n, snd g)"
| "rmatch (GroupClose # ps) s n g = rmatch ps s n (fst g, n)"

text \<open>
  \<^verbatim>\<open>re.search\<close> tries every start position from left to right, the end of the input
  included. The match object is the input from the start position on, the end offset and
  the span of group 1.
\<close>

fun re_search :: "rx list \<Rightarrow> string \<Rightarrow> (string \<times> nat \<times> nat \<times> nat) option" where
  "re_search ps [] = map_option (Pair []) (rmatch ps [] 0 (0, 0))"
| "re_search ps (x # xs) =
     (case rmatch ps (x # xs) 0 (0, 0) of
        Some m \<Rightarrow> Some (x # xs, m)
      | None \<Rightarrow> re_search ps xs)"

definition group0 :: "string \<times> nat \<times> nat \<times> nat \<Rightarrow> string" where
  "group0 m = (case m of (s, n, b, e) \<Rightarrow> take n s)"

definition group1 :: "string \<times> nat \<times> nat \<times> nat \<Rightarrow> string" where
  "group1 m = (case m of (s, n, b, e) \<Rightarrow> take (e - b) (drop b s))"

text \<open>What \<^verbatim>\<open>\s\<close> matches in a \<^verbatim>\<open>str\<close> pattern, among the code points below 256.\<close>

definition is_space :: "char \<Rightarrow> bool" where
  "is_space c = (c \<in> {CHR 0x09, CHR 0x0A, CHR 0x0B, CHR 0x0C, CHR 0x0D, CHR 0x1C, CHR 0x1D,
                       CHR 0x1E, CHR 0x1F, CHR 0x20, CHR 0x85, CHR 0xA0})"

definition fence :: string where
  "fence = ''```''"

text \<open>
  \<^verbatim>\<open>r'```(?:json)?\s*(\{.*?\})\s*```'\<close> and \<^verbatim>\<open>r'\{.*\}'\<close>, both with
  \<^verbatim>\<open>re.DOTALL\<close>: the dot matches every character.
\<close>

definition fenced_pattern :: "rx list" where
  "fenced_pattern = [Lit fence, Opt ''json'', Star is_space, GroupOpen, Lit ''{'',
                     LazyStar (\<lambda>c. True), Lit ''}'', GroupClose, Star is_space, Lit fence]"

definition brace_pattern :: "rx list" where
  "brace_pattern = [Lit ''{'', Star (\<lambda>c. True), Lit ''}'']"

definition extract_json :: "string \<Rightarrow> string" where
  "extract_json text =
     (case re_search fenced_pattern text of
        Some m \<Rightarrow> group1 m
      | None \<Rightarrow>
          (case re_search brace_pattern text of
             Some m \<Rightarrow> group0 m
           | None \<Rightarrow> text))"

text \<open>
  The words of the specification, for the statements about the extractor. A fenced block
  of \<open>text\<close>: a fence, an optional \<^verbatim>\<open>json\<close> label, optional white space, a payload in
  braces, optional white space and a closing fence; \<open>pre\<close> is what stands before the
  block and \<open>post\<close> what stands after it.
\<close>

definition fenced_block :: "string \<Rightarrow> string \<Rightarrow> string \<Rightarrow> string \<Rightarrow> bool" where
  "fenced_block pre payload post text \<longleftrightarrow>
     (\<exists>label ws1 ws2 body.
        text = pre @ fence @ label @ ws1 @ payload @ ws2 @ fence @ post \<and>
        payload = ''{'' @ body @ ''}'' \<and> (label = [] \<or> label = ''json'') \<and>
        list_all is_space ws1 \<and> list_all is_space ws2)"

text \<open>Auxiliary functions of the proofs about the fenced pattern.\<close>

definition closes_block :: "string \<Rightarrow> bool" where
  "closes_block s = prefix fence (dropWhile is_space s)"

fun find_close :: "string \<Rightarrow> nat option" where
  "find_close [] = None"
| "find_close (x # xs) =
     (if x = CHR ''}'' \<and> closes_block xs then Some 0 else map_option Suc (find_close xs))"

definition label_len :: "string \<Rightarrow> nat" where
  "label_len r = (if prefix ''json'' r then 4 else 0)"

section \<open>The planning loop\<close>

subsection \<open>Python values\<close>

text \<open>
  What \<^verbatim>\<open>json.loads\<close> returns. An object is the dict in insertion order, looked up
  with \<^const>\<open>map_of\<close>. The loop never computes with a number, it only tests one for zero,
  so numbers are integers here.
\<close>

datatype json =
    JNull
  | JBool bool
  | JNum int
  | JStr string
  | JArr "json list"
  | JObj "(string \<times> json) list"

text \<open>Python truthiness: \<^verbatim>\<open>not x\<close>, \<^verbatim>\<open>x or y\<close>.\<close>

fun truthy :: "json \<Rightarrow> bool" where
  "truthy JNull = False"
| "truthy (JBool b) = b"
| "truthy (JNum n) = (n \<noteq> 0)"
| "truthy (JStr s) = (s \<noteq> [])"
| "truthy (JArr xs) = (xs \<noteq> [])"
| "truthy (JObj kv) = (kv \<noteq> [])"

definition py_or :: "json \<Rightarrow> json \<Rightarrow> json" where
  "py_or a b = (if truthy a then a else b)"

text \<open>\<^verbatim>\<open>plan.get(key, default)\<close> on a dict.\<close>

definition dict_get :: "(string \<times> json) list \<Rightarrow> string \<Rightarrow> json \<Rightarrow> json" where
  "dict_get d key dflt = (case map_of d key of Some v \<Rightarrow> v | None \<Rightarrow> dflt)"

text \<open>
  \<^verbatim>\<open>for tool_name in new_tools\<close>: a list yields its elements, a string its characters, a
  dict its keys; \<^verbatim>\<open>None\<close>, a boolean and a number are not iterable (\<^verbatim>\<open>TypeError\<close>).
\<close>

fun py_iter :: "json \<Rightarrow> json list option" where
  "py_iter (JArr xs) = Some xs"
| "py_iter (JStr s) = Some (map (\<lambda>c. JStr [c]) s)"
| "py_iter (JObj kv) = Some (map (\<lambda>p. JStr (fst p)) kv)"
| "py_iter v = None"

subsection \<open>Tools and the agent\<close>

text \<open>
  A tool's \<^verbatim>\<open>run(query)\<close> returns text or raises. Tools have effects, so the outcome
  may differ from round to round: a tool takes the number of the round too (the loop
  invokes a tool at most once in a round). The services behind the three tools of
  \<^verbatim>\<open>_init_tools\<close> are parameters: each returns its text (\<open>Inr\<close>) or fails with a
  description (\<open>Inl\<close>), and the tool's own \<^verbatim>\<open>try\<close>/\<^verbatim>\<open>except\<close> turns the failure into text.
  The model keeps to the annotation of the tools, text to text: a tool that returns a
  value which \<^verbatim>\<open>json.dumps\<close> cannot write into the next prompt is outside it.
\<close>

datatype tool_result = Returned string | Raised string

type_synonym tool = "nat \<Rightarrow> string \<Rightarrow> tool_result"

type_synonym service = "nat \<Rightarrow> string \<Rightarrow> string + string"

definition search_tool :: "service \<Rightarrow> tool" where
  "search_tool duckduckgo i query =
     (case duckduckgo i query of
        Inr results \<Rightarrow> Returned (''DuckDuckGo Search Results: '' @ results)
      | Inl e \<Rightarrow> Returned (''Search error: '' @ e))"

definition wiki_tool :: "service \<Rightarrow> tool" where
  "wiki_tool wikipedia i query =
     (case wikipedia i query of
        Inr results \<Rightarrow> Returned (''Wikipedia: '' @ results)
      | Inl e \<Rightarrow> Returned (''Wikipedia error: '' @ e))"

definition save_tool :: "service \<Rightarrow> tool" where
  "save_tool append_file i data =
     (case append_file i (data @ [CHR 0x0A]) of
        Inr written \<Rightarrow> Returned ''Data saved to research_output.txt''
      | Inl e \<Rightarrow> Returned (''Save error: '' @ e))"

record history_item =
  h_query :: string
  h_summary :: string
  h_sources :: "string list"

record ResearchAgent =
  tool_map :: "string \<rightharpoonup> tool"
  conversation_history :: "history_item list"

definition init_tools :: "service \<Rightarrow> service \<Rightarrow> service \<Rightarrow> (string \<rightharpoonup> tool)" where
  "init_tools duckduckgo wikipedia append_file =
     [''search_tool'' \<mapsto> search_tool duckduckgo,
      ''wiki_tool'' \<mapsto> wiki_tool wikipedia,
      ''save_tool'' \<mapsto> save_tool append_file]"

definition add_tool :: "string \<Rightarrow> tool \<Rightarrow> ResearchAgent \<Rightarrow> ResearchAgent" where
  "add_tool name tool_func agent = agent\<lparr>tool_map := (tool_map agent)(name \<mapsto> tool_func)\<rparr>"

definition remove_tool :: "string \<Rightarrow> ResearchAgent \<Rightarrow> ResearchAgent" where
  "remove_tool name agent = agent\<lparr>tool_map := (tool_map agent)(name := None)\<rparr>"

definition clear_history :: "ResearchAgent \<Rightarrow> ResearchAgent" where
  "clear_history agent = agent\<lparr>conversation_history := []\<rparr>"

subsection \<open>The session state and the result\<close>

text \<open>
  The dict \<^verbatim>\<open>state\<close> of \<^verbatim>\<open>research\<close>. Summary and sources hold whatever value the last
  plan gave them; \<^verbatim>\<open>tool_results\<close> is a dict in insertion order.
\<close>

record session =
  s_tools_used :: "string list"
  s_tool_results :: "(string \<times> string) list"
  s_topic :: string
  s_summary :: json
  s_sources :: json

definition initial_state :: "string \<Rightarrow> session" where
  "initial_state query =
     \<lparr>s_tools_used = [], s_tool_results = [], s_topic = query,
      s_summary = JStr [], s_sources = JArr []\<rparr>"

record ResearchResponse =
  topic :: string
  summary :: string
  sources :: "string list"
  tools_used :: "string list"

datatype error =
    ModelCallError
  | JSONDecodeError
  | AttributeError
  | TypeError
  | ToolError string
  | ValidationError

text \<open>
  \<^verbatim>\<open>ResearchResponse\<close> is a pydantic model: building one validates every field against
  its annotation and raises \<^verbatim>\<open>ValidationError\<close> when a value is of another type.
  Topic and tools used are a string and a list of strings by construction; summary and
  sources come from the model's output. The validation is that of pydantic 2, which takes
  a string for \<^verbatim>\<open>str\<close> and a list of strings for \<^verbatim>\<open>list[str]\<close> and nothing else
  among the values of \<^verbatim>\<open>json.loads\<close>.
\<close>

fun validate_str :: "json \<Rightarrow> string option" where
  "validate_str (JStr s) = Some s"
| "validate_str v = None"

fun validate_str_list :: "json \<Rightarrow> string list option" where
  "validate_str_list (JArr xs) = those (map validate_str xs)"
| "validate_str_list v = None"

definition new_response :: "string \<Rightarrow> json \<Rightarrow> json \<Rightarrow> string list \<Rightarrow> error + ResearchResponse" where
  "new_response t sm src used =
     (case validate_str sm of
        None \<Rightarrow> Inl ValidationError
      | Some sm' \<Rightarrow>
          (case validate_str_list src of
             None \<Rightarrow> Inl ValidationError
           | Some src' \<Rightarrow>
               Inr \<lparr>topic = t, summary = sm', sources = src', tools_used = used\<rparr>))"

subsection \<open>One round\<close>

text \<open>
  The language model is an oracle: \<^verbatim>\<open>self.llm.invoke(llm_input)\<close> raises or returns
  text. The prompt is built from the query, the conversation history, the registry's
  names and the session state; only the last changes during a call, so the oracle reads
  the round's number and the state. A reply whose content is not text makes
  \<^verbatim>\<open>re.search\<close> raise before anything is written, as a failed call does, and is
  \<open>LlmRaises\<close> here. \<^verbatim>\<open>json.loads\<close> is a parameter (\<open>None\<close>: it
  raises). The log is not part of the program: it records each call of the model and of
  a tool, for the statements about how often they happen. \<^verbatim>\<open>verbose\<close> only prints.
\<close>

datatype llm_reply = LlmRaises | LlmText string

type_synonym llm = "nat \<Rightarrow> session \<Rightarrow> llm_reply"

datatype event = LlmInvoked nat | ToolInvoked nat string tool_result

text \<open>
  How a round ends: its body ran to the end, it left the loop with \<^verbatim>\<open>break\<close>, or an
  exception was caught by \<^verbatim>\<open>except Exception\<close> (\<^verbatim>\<open>continue\<close>).
\<close>

datatype round_end = Completed | Converged | Failed error

text \<open>
  Lines 178 to 184, the loop over the requested names. A name that is a list or a dict
  is unhashable (\<^verbatim>\<open>TypeError\<close> at \<^verbatim>\<open>tool_name in self.tool_map\<close>); any other value
  that is not a string is no key of the registry. An exception leaves the loop with the
  state as it is.
\<close>

fun call_tools ::
  "(string \<rightharpoonup> tool) \<Rightarrow> string \<Rightarrow> nat \<Rightarrow> json list \<Rightarrow> session \<times> event list
     \<Rightarrow> error option \<times> session \<times> event list" where
  "call_tools tm query i [] (st, log) = (None, st, log)"
| "call_tools tm query i (JStr tool_name # rest) (st, log) =
     (case tm tool_name of
        None \<Rightarrow> call_tools tm query i rest (st, log)
      | Some t \<Rightarrow>
          if tool_name \<in> fst ` set (s_tool_results st) then call_tools tm query i rest (st, log)
          else
            (case t i query of
               Raised e \<Rightarrow> (Some (ToolError e), st, log @ [ToolInvoked i tool_name (Raised e)])
             | Returned result \<Rightarrow>
                 call_tools tm query i rest
                   (st\<lparr>s_tool_results := AList.update tool_name result (s_tool_results st),
                       s_tools_used := s_tools_used st @ [tool_name]\<rparr>,
                    log @ [ToolInvoked i tool_name (Returned result)])))"
| "call_tools tm query i (JArr xs # rest) (st, log) = (Some TypeError, st, log)"
| "call_tools tm query i (JObj kv # rest) (st, log) = (Some TypeError, st, log)"
| "call_tools tm query i (v # rest) (st, log) = call_tools tm query i rest (st, log)"

text \<open>Lines 166 to 184: what the round does with a parsed plan that is a dict.\<close>

definition run_plan ::
  "(string \<rightharpoonup> tool) \<Rightarrow> string \<Rightarrow> nat \<Rightarrow> (string \<times> json) list \<Rightarrow> session \<times> event list
     \<Rightarrow> round_end \<times> session \<times> event list" where
  "run_plan tm query i plan sl =
     (case sl of (st, log) \<Rightarrow>
        let st1 = st\<lparr>s_summary := dict_get plan ''summary'' (s_summary st)\<rparr>;
            st2 = st1\<lparr>s_sources := dict_get plan ''sources'' (s_sources st1)\<rparr>;
            new_tools = dict_get plan ''tools_used'' (JArr [])
        in if \<not> truthy new_tools \<and> truthy (s_summary st2) \<and> 2 \<le> length (s_tools_used st2)
           then (Converged, st2, log)
           else
             (case py_iter new_tools of
                None \<Rightarrow> (Failed TypeError, st2, log)
              | Some names \<Rightarrow>
                  (case call_tools tm query i names (st2, log) of
                     (None, sl') \<Rightarrow> (Completed, sl')
                   | (Some e, sl') \<Rightarrow> (Failed e, sl'))))"

text \<open>
  Lines 159 to 189, the body of the \<^verbatim>\<open>for\<close> loop. A parsed value that is no dict has
  no \<^verbatim>\<open>get\<close> (\<^verbatim>\<open>AttributeError\<close>).
\<close>

definition round_body ::
  "llm \<Rightarrow> (string \<Rightarrow> json option) \<Rightarrow> (string \<rightharpoonup> tool) \<Rightarrow> string \<Rightarrow> nat \<Rightarrow> session \<times> event list
     \<Rightarrow> round_end \<times> session \<times> event list" where
  "round_body llm loads tm query i sl =
     (case sl of (st, log) \<Rightarrow>
        (case llm i st of
           LlmRaises \<Rightarrow> (Failed ModelCallError, st, log @ [LlmInvoked i])
         | LlmText llm_text \<Rightarrow>
             (case loads (extract_json llm_text) of
                None \<Rightarrow> (Failed JSONDecodeError, st, log @ [LlmInvoked i])
              | Some (JObj plan) \<Rightarrow> run_plan tm query i plan (st, log @ [LlmInvoked i])
              | Some v \<Rightarrow> (Failed AttributeError, st, log @ [LlmInvoked i]))))"

subsection \<open>The loop and the call\<close>

text \<open>
  \<^verbatim>\<open>for iteration in range(1, max_iterations + 1)\<close>: \<open>research_loop \<dots> i n\<close> runs the
  rounds \<open>i\<close>, \<open>i + 1\<close>, \<dots> and at most \<open>n\<close> of them.
\<close>

fun research_loop ::
  "llm \<Rightarrow> (string \<Rightarrow> json option) \<Rightarrow> (string \<rightharpoonup> tool) \<Rightarrow> string \<Rightarrow> nat \<Rightarrow> nat
     \<Rightarrow> session \<times> event list \<Rightarrow> session \<times> event list" where
  "research_loop llm loads tm query i 0 sl = sl"
| "research_loop llm loads tm query i (Suc n) sl =
     (case round_body llm loads tm query i sl of
        (Converged, sl') \<Rightarrow> sl'
      | (r, sl') \<Rightarrow> research_loop llm loads tm query (Suc i) n sl')"

definition research ::
  "llm \<Rightarrow> (string \<Rightarrow> json option) \<Rightarrow> ResearchAgent \<Rightarrow> string \<Rightarrow> int
     \<Rightarrow> error + ResearchResponse \<times> ResearchAgent" where
  "research llm loads agent query max_iterations =
     (case research_loop llm loads (tool_map agent) query 1 (nat max_iterations)
             (initial_state query, []) of
        (st, log) \<Rightarrow>
          (case new_response (s_topic st)
                  (py_or (s_summary st) (JStr ''Unable to complete research''))
                  (py_or (s_sources st) (JArr []))
                  (s_tools_used st) of
             Inl e \<Rightarrow> Inl e
           | Inr response \<Rightarrow>
               Inr (response,
                    agent\<lparr>conversation_history := conversation_history agent @
                      [\<lparr>h_query = query, h_summary = summary response,
                        h_sources = sources response\<rparr>]\<rparr>)))"

text \<open>What the log says: the rounds run, the tools invoked, those that returned or raised.\<close>

fun rounds_of :: "event list \<Rightarrow> nat list" where
  "rounds_of [] = []"
| "rounds_of (LlmInvoked i # es) = i # rounds_of es"
| "rounds_of (e # es) = rounds_of es"

fun invoked_names :: "event list \<Rightarrow> string list" where
  "invoked_names [] = []"
| "invoked_names (ToolInvoked i name r # es) = name # invoked_names es"
| "invoked_names (e # es) = invoked_names es"

fun returned_pairs :: "event list \<Rightarrow> (string \<times> string) list" where
  "returned_pairs [] = []"
| "returned_pairs (ToolInvoked i name (Returned text) # es) = (name, text) # returned_pairs es"
| "returned_pairs (e # es) = returned_pairs es"

fun raised_names :: "event list \<Rightarrow> string list" where
  "raised_names [] = []"
| "raised_names (ToolInvoked i name (Raised e) # es) = name # raised_names es"
| "raised_names (e # es) = raised_names es"

fun never_reinvoked :: "event list \<Rightarrow> bool" where
  "never_reinvoked [] = True"
| "never_reinvoked (ToolInvoked i name (Returned text) # es) =
     (name \<notin> set (invoked_names es) \<and> never_reinvoked es)"
| "never_reinvoked (e # es) = never_reinvoked es"

definition session_inv :: "session \<times> event list \<Rightarrow> bool" where
  "session_inv sl \<longleftrightarrow>
     s_tool_results (fst sl) = returned_pairs (snd sl) \<and>
     s_tools_used (fst sl) = map fst (returned_pairs (snd sl)) \<and>
     distinct (s_tools_used (fst sl)) \<and>
     never_reinvoked (snd sl)"

text \<open>The session state when the loop is left.\<close>

definition final_state ::
  "llm \<Rightarrow> (string \<Rightarrow> json option) \<Rightarrow> ResearchAgent \<Rightarrow> string \<Rightarrow> int \<Rightarrow> session" where
  "final_state llm loads agent query max_iterations =
     fst (research_loop llm loads (tool_map agent) query 1 (nat max_iterations)
            (initial_state query, []))"

text \<open>
  The types that the result demands of what a plan writes into the state: a summary
  that is a string, sources that are a list of strings, or in either place a value that
  \<^verbatim>\<open>or\<close> replaces (\<^verbatim>\<open>None\<close>, zero, an empty string, list or dict).
\<close>

definition summary_ok :: "json \<Rightarrow> bool" where
  "summary_ok v = (case validate_str v of Some s \<Rightarrow> True | None \<Rightarrow> \<not> truthy v)"

definition sources_ok :: "json \<Rightarrow> bool" where
  "sources_ok v = (case validate_str_list v of Some l \<Rightarrow> True | None \<Rightarrow> \<not> truthy v)"

text \<open>A parsed value with its \<^verbatim>\<open>"topic"\<close> entry set to \<open>v\<close>, when it is a dict.\<close>

fun with_topic :: "json \<Rightarrow> json \<Rightarrow> json" where
  "with_topic v (JObj plan) = JObj (AList.update ''topic'' v plan)"
| "with_topic v j = j"

section \<open>Sessions used as examples\<close>

text \<open>
  Concrete sessions on which the theorems below are exercised. \<^verbatim>\<open>json.loads\<close> is a
  parameter of the model, so a reply is written as a short name in braces and
  \<open>demo_loads\<close> gives the value that \<^verbatim>\<open>json.loads\<close> returns for the JSON text it stands
  for; every other text does not parse. \<open>untyped_loads\<close> adds a plan whose sources are a
  string, not a list.
\<close>

definition demo_loads :: "string \<Rightarrow> json option" where
  "demo_loads t =
     (if t = ''{ghost}'' then
        Some (JObj [(''summary'', JStr ''draft''), (''sources'', JArr []),
                    (''tools_used'', JArr [JStr ''ghost_tool''])])
      else if t = ''{flaky}'' then
        Some (JObj [(''tools_used'', JArr [JStr ''flaky_tool''])])
      else if t = ''{both}'' then
        Some (JObj [(''tools_used'', JArr [JStr ''search_tool'', JStr ''wiki_tool''])])
      else if t = ''{final}'' then
        Some (JObj [(''summary'', JStr ''final''), (''sources'', JArr [JStr ''a'', JStr ''b'']),
                    (''tools_used'', JArr [])])
      else if t = ''{X}'' then
        Some (JObj [(''summary'', JStr ''X''), (''sources'', JArr []), (''tools_used'', JArr [])])
      else if t = ''{topic}'' then
        Some (JObj [(''topic'', JStr ''another topic''), (''summary'', JStr ''X''),
                    (''sources'', JArr []), (''tools_used'', JArr [])])
      else if t = ''{list}'' then Some (JArr [JNum 1])
      else None)"

definition untyped_loads :: "string \<Rightarrow> json option" where
  "untyped_loads t =
     (if t = ''{badsrc}'' then
        Some (JObj [(''summary'', JStr ''ok''), (''sources'', JStr ''wikipedia''),
                    (''tools_used'', JArr [])])
      else demo_loads t)"

text \<open>A model that gives the same reply in every round, and one that follows a script.\<close>

definition always :: "string \<Rightarrow> llm" where
  "always reply i st = LlmText reply"

definition scripted :: "llm_reply list \<Rightarrow> llm" where
  "scripted replies i st =
     (if 0 < i \<and> i \<le> length replies then replies ! (i - 1) else LlmRaises)"

text \<open>
  The agent of the examples: the search service is down, the other two services answer,
  and a tool that raises on every call has been added with \<^verbatim>\<open>add_tool\<close>.
\<close>

definition ok_service :: service where
  "ok_service i q = Inr ''results''"

definition down_service :: service where
  "down_service i q = Inl ''timeout''"

definition flaky_tool :: tool where
  "flaky_tool i q = Raised ''boom''"

definition demo_agent :: ResearchAgent where
  "demo_agent =
     add_tool ''flaky_tool'' flaky_tool
       \<lparr>tool_map = init_tools down_service ok_service ok_service, conversation_history = []\<rparr>"

section \<open>Properties of the extractor\<close>

lemma orelse_simps [simp]:
  "orelse None b = b" "orelse (Some r) b = Some r" "orelse a None = a"
  by (simp_all add: orelse_def split: option.splits)

lemma not_space_chars [simp]:
  "\<not> is_space (CHR 0x60)" "\<not> is_space (CHR ''{'')" "\<not> is_space (CHR ''}'')"
  "\<not> is_space (CHR ''j'')"
  by (simp_all add: is_space_def)

lemma length_fence: "length fence = 3"
  by (simp add: fence_def)

lemma dropWhile_Cons_D: "dropWhile P xs = y # ys \<Longrightarrow> \<forall>x\<in>set xs. P x \<Longrightarrow> False"
  by (metis dropWhile_eq_Nil_conv list.distinct(1))

text \<open>
  A greedy star whose continuation cannot start with a character of its class has one
  way to match: it takes all it can.
\<close>

lemma star_det:
  assumes "\<And>x xs n g. cls x \<Longrightarrow> rmatch ps (x # xs) n g = None"
  shows "rmatch (Star cls # ps) s n g
           = rmatch ps (dropWhile cls s) (n + length (takeWhile cls s)) g"
  using assms by (induction s arbitrary: n) simp_all

lemma rmatch_closing:
  "rmatch [Star is_space, Lit fence] s n g
     = (if closes_block s then Some (n + length (takeWhile is_space s) + 3, g) else None)"
proof -
  have "rmatch [Lit fence] (x # xs) n g = None" if "is_space x" for x xs n g
    using that by (auto simp: fence_def)
  then show ?thesis
    by (simp add: star_det closes_block_def) (simp add: fence_def)
qed

text \<open>The lazy star stops at the first closing brace that white space and a fence follow.\<close>

lemma rmatch_lazy:
  "rmatch [LazyStar (\<lambda>c. True), Lit ''}'', GroupClose, Star is_space, Lit fence] s n g
     = (case find_close s of
          None \<Rightarrow> None
        | Some k \<Rightarrow> Some (n + k + 1 + length (takeWhile is_space (drop (Suc k) s)) + 3,
                          fst g, n + k + 1))"
proof (induction s arbitrary: n)
  case Nil
  show ?case by simp
next
  case (Cons x xs)
  show ?case
    by (simp add: Cons.IH rmatch_closing split: option.splits)
qed

lemma rmatch_lit_brace:
  "rmatch (Lit ''{'' # ps) t m g
     = (case t of [] \<Rightarrow> None
        | c # body \<Rightarrow> if c = CHR ''{'' then rmatch ps body (m + 1) g else None)"
  by (cases t) auto

lemma rmatch_opening:
  "rmatch (Star is_space # GroupOpen # Lit ''{'' # ps) s n g
     = (case dropWhile is_space s of
          [] \<Rightarrow> None
        | c # body \<Rightarrow>
            if c = CHR ''{''
            then rmatch ps body (n + length (takeWhile is_space s) + 1)
                   (n + length (takeWhile is_space s), snd g)
            else None)"
proof -
  have "rmatch (GroupOpen # Lit ''{'' # ps) (x # xs) n g = None" if "is_space x" for x xs n g
    using that by auto
  then have "rmatch (Star is_space # GroupOpen # Lit ''{'' # ps) s n g
      = rmatch (GroupOpen # Lit ''{'' # ps) (dropWhile is_space s)
          (n + length (takeWhile is_space s)) g"
    by (rule star_det)
  then show ?thesis
    by (simp add: rmatch_lit_brace del: rmatch.simps(2))
qed

lemma rmatch_label:
  "rmatch (Opt ''json'' # Star is_space # GroupOpen # Lit ''{'' # ps) s n g
     = rmatch (Star is_space # GroupOpen # Lit ''{'' # ps)
         (drop (label_len s) s) (n + label_len s) g"
proof (cases "prefix ''json'' s")
  case True
  then obtain t where s: "s = ''json'' @ t" by (auto simp: prefix_def)
  have "rmatch (Star is_space # GroupOpen # Lit ''{'' # ps) s n g = None"
    by (simp add: rmatch_opening s)
  with True show ?thesis by (simp add: label_len_def eval_nat_numeral)
next
  case False
  then show ?thesis by (simp add: label_len_def)
qed

text \<open>The fenced pattern at one start position, as a function of the input.\<close>

lemma rmatch_fenced:
  "rmatch fenced_pattern s 0 (0, 0)
     = (if prefix fence s then
          (let r = drop (label_len (drop 3 s)) (drop 3 s);
               b = 3 + label_len (drop 3 s) + length (takeWhile is_space r)
           in case dropWhile is_space r of
                [] \<Rightarrow> None
              | c # body \<Rightarrow>
                  if c = CHR ''{'' then
                    (case find_close body of
                       None \<Rightarrow> None
                     | Some k \<Rightarrow>
                         Some (b + 1 + k + 1 + length (takeWhile is_space (drop (Suc k) body)) + 3,
                               b, b + 1 + k + 1))
                  else None)
        else None)"
  by (auto simp add: fenced_pattern_def length_fence rmatch_label rmatch_opening rmatch_lazy Let_def
           simp del: rmatch.simps(3) split: list.splits option.splits dest: dropWhile_Cons_D)

lemma closes_blockD:
  assumes "closes_block t"
  shows "\<exists>ws post. t = ws @ fence @ post \<and> list_all is_space ws"
proof -
  from assms obtain post where "dropWhile is_space t = fence @ post"
    by (auto simp: closes_block_def prefix_def)
  then have "t = takeWhile is_space t @ fence @ post"
    by (metis takeWhile_dropWhile_id)
  moreover have "list_all is_space (takeWhile is_space t)"
    by (simp add: list_all_iff) (meson set_takeWhileD)
  ultimately show ?thesis by blast
qed

lemma closes_blockI: "list_all is_space ws \<Longrightarrow> closes_block (ws @ fence @ post)"
  by (simp add: closes_block_def list_all_iff dropWhile_append2 fence_def)

lemma find_close_SomeD:
  "find_close s = Some k \<Longrightarrow>
     \<exists>body tail. s = body @ CHR ''}'' # tail \<and> length body = k \<and> closes_block tail"
proof (induction s arbitrary: k)
  case Nil
  then show ?case by simp
next
  case (Cons x xs)
  show ?case
  proof (cases "x = CHR ''}'' \<and> closes_block xs")
    case True
    with Cons.prems have "k = 0" by simp
    with True show ?thesis by auto
  next
    case False
    with Cons.prems obtain j where j: "find_close xs = Some j" "k = Suc j" by auto
    from Cons.IH [OF j(1)] obtain body tail
      where "xs = body @ CHR ''}'' # tail" "length body = j" "closes_block tail" by blast
    then have "x # xs = (x # body) @ CHR ''}'' # tail \<and> length (x # body) = k \<and> closes_block tail"
      using j(2) by simp
    then show ?thesis by blast
  qed
qed

lemma find_close_append:
  "closes_block tail \<Longrightarrow> \<exists>k\<le>length body. find_close (body @ CHR ''}'' # tail) = Some k"
proof (induction body)
  case Nil
  then show ?case by simp
next
  case (Cons x xs)
  then obtain k where "k \<le> length xs" "find_close (xs @ CHR ''}'' # tail) = Some k" by blast
  then show ?case by auto
qed

lemma label_len_block:
  assumes "label = [] \<or> label = ''json''" "list_all is_space ws1"
  shows "label_len (label @ ws1 @ CHR ''{'' # rest) = length label"
proof -
  have "\<not> prefix ''json'' (ws1 @ CHR ''{'' # rest)"
    using assms(2) by (cases ws1) auto
  with assms(1) show ?thesis by (auto simp: label_len_def)
qed

text \<open>
  A fenced block at the start of the input is matched, and group 1 starts at the
  block's brace and ends no later than its payload.
\<close>

lemma rmatch_fenced_block:
  assumes "label = [] \<or> label = ''json''" "list_all is_space ws1" "list_all is_space ws2"
  shows "\<exists>n k. k \<le> length body \<and>
           rmatch fenced_pattern (fence @ label @ ws1 @ ''{'' @ body @ ''}'' @ ws2 @ fence @ post)
             0 (0, 0)
           = Some (n, 3 + length label + length ws1, 3 + length label + length ws1 + k + 2)"
proof -
  let ?tail = "ws2 @ fence @ post"
  let ?rest = "body @ CHR ''}'' # ?tail"
  let ?s = "fence @ label @ ws1 @ ''{'' @ body @ ''}'' @ ws2 @ fence @ post"
  have d3: "drop 3 ?s = label @ ws1 @ CHR ''{'' # ?rest" by (simp add: fence_def)
  have ll: "label_len (drop 3 ?s) = length label"
    unfolding d3 using assms(1,2) by (rule label_len_block)
  have r: "drop (length label) (drop 3 ?s) = ws1 @ CHR ''{'' # ?rest"
    unfolding d3 by simp
  have tw: "takeWhile is_space (ws1 @ CHR ''{'' # ?rest) = ws1"
    using assms(2) by (simp add: takeWhile_append2 list_all_iff)
  have dw: "dropWhile is_space (ws1 @ CHR ''{'' # ?rest) = CHR ''{'' # ?rest"
    using assms(2) by (simp add: dropWhile_append2 list_all_iff)
  from closes_blockI [OF assms(3)] have "closes_block ?tail" .
  from find_close_append [OF this] obtain k
    where k: "k \<le> length body" "find_close ?rest = Some k" by blast
  have pf: "prefix fence ?s" by simp
  have "rmatch fenced_pattern ?s 0 (0, 0)
          = Some (3 + length label + length ws1 + 1 + k + 1
                    + length (takeWhile is_space (drop (Suc k) ?rest)) + 3,
                  3 + length label + length ws1, 3 + length label + length ws1 + 1 + k + 1)"
    apply (subst rmatch_fenced)
    apply (simp only: pf if_True Let_def ll r tw dw list.case k option.case simp_thms)
    done
  with k(1) show ?thesis by simp
qed

text \<open>A match of the fenced pattern is a fenced block, and group 1 is its payload.\<close>

lemma rmatch_fenced_SomeD:
  assumes "rmatch fenced_pattern s 0 (0, 0) = Some (n, b, e)"
  shows "\<exists>post. fenced_block [] (take (e - b) (drop b s)) post s"
proof -
  from assms have pf: "prefix fence s"
    by (simp add: rmatch_fenced split: if_splits)
  define t where "t = drop 3 s"
  define label where "label = take (label_len t) t"
  define r where "r = drop (label_len t) t"
  define ws1 where "ws1 = takeWhile is_space r"
  from pf have s: "s = fence @ t"
    by (auto simp: t_def prefix_def fence_def)
  have t: "t = label @ r" by (simp add: label_def r_def)
  have lab: "label = [] \<or> label = ''json''"
    by (auto simp: label_def label_len_def prefix_def)
  have ll: "length label = label_len t"
    using lab by (auto simp: label_def label_len_def prefix_def)
  from assms pf obtain rest k where
    dw: "dropWhile is_space r = CHR ''{'' # rest" and fc: "find_close rest = Some k"
    and b: "b = 3 + label_len t + length ws1" and e: "e = b + 1 + k + 1"
    unfolding rmatch_fenced
    by (auto simp: Let_def t_def r_def ws1_def split: list.splits if_splits option.splits)
  have r: "r = ws1 @ CHR ''{'' # rest"
    using dw by (metis takeWhile_dropWhile_id ws1_def)
  from find_close_SomeD [OF fc] obtain body tail
    where rest: "rest = body @ CHR ''}'' # tail" and lb: "length body = k" and "closes_block tail"
    by blast
  from closes_blockD [OF this(3)] obtain ws2 post
    where tail: "tail = ws2 @ fence @ post" and ws2: "list_all is_space ws2" by blast
  have ws1: "list_all is_space ws1"
    by (simp add: ws1_def list_all_iff) (meson set_takeWhileD)
  have full: "s = fence @ label @ ws1 @ (''{'' @ body @ ''}'') @ ws2 @ fence @ post"
    by (simp add: s t r rest tail)
  have "drop b s = (''{'' @ body @ ''}'') @ ws2 @ fence @ post"
    by (subst full) (simp add: b ll length_fence)
  then have "take (e - b) (drop b s) = ''{'' @ body @ ''}''"
    by (simp add: e lb)
  with full lab ws1 ws2 show ?thesis
    unfolding fenced_block_def by (metis append_Nil)
qed

lemma re_search_hit: "rmatch ps s 0 (0, 0) = Some m \<Longrightarrow> re_search ps s = Some (s, m)"
  by (cases s) simp_all

lemma re_search_append:
  "(\<And>a b. pre = a @ b \<Longrightarrow> b \<noteq> [] \<Longrightarrow> rmatch ps (b @ s) 0 (0, 0) = None)
     \<Longrightarrow> re_search ps (pre @ s) = re_search ps s"
proof (induction pre)
  case Nil
  show ?case by simp
next
  case (Cons x xs)
  have "rmatch ps ((x # xs) @ s) 0 (0, 0) = None"
    using Cons.prems [of "[]" "x # xs"] by simp
  moreover have "re_search ps (xs @ s) = re_search ps s"
  proof (rule Cons.IH)
    fix a b assume "xs = a @ b" "b \<noteq> []"
    then show "rmatch ps (b @ s) 0 (0, 0) = None"
      using Cons.prems [of "x # a" b] by simp
  qed
  ultimately show ?case by simp
qed

lemma re_search_SomeD:
  "re_search ps t = Some (s, m) \<Longrightarrow> \<exists>pre. t = pre @ s \<and> rmatch ps s 0 (0, 0) = Some m"
proof (induction t)
  case Nil
  then show ?case by auto
next
  case (Cons x xs)
  show ?case
  proof (cases "rmatch ps (x # xs) 0 (0, 0)")
    case None
    with Cons.prems have "re_search ps xs = Some (s, m)" by simp
    from Cons.IH [OF this] obtain pre where "xs = pre @ s" "rmatch ps s 0 (0, 0) = Some m"
      by blast
    then have "x # xs = (x # pre) @ s \<and> rmatch ps s 0 (0, 0) = Some m" by simp
    then show ?thesis by blast
  next
    case (Some m')
    with Cons.prems have "s = x # xs" "m = m'" by simp_all
    with Some have "x # xs = [] @ s \<and> rmatch ps s 0 (0, 0) = Some m" by simp
    then show ?thesis by blast
  qed
qed

lemma fenced_block_shift:
  "fenced_block [] payload post s \<Longrightarrow> fenced_block pre payload post (pre @ s)"
  unfolding fenced_block_def by auto

lemma fenced_search_SomeD:
  assumes "re_search fenced_pattern inp = Some m"
  shows "\<exists>pre post. fenced_block pre (group1 m) post inp"
proof -
  obtain s n b e where m: "m = (s, n, b, e)" by (cases m) auto
  from re_search_SomeD [OF assms [unfolded m]] obtain pre
    where "inp = pre @ s" "rmatch fenced_pattern s 0 (0, 0) = Some (n, b, e)" by blast
  with rmatch_fenced_SomeD [OF this(2)] show ?thesis
    by (auto simp: m group1_def dest: fenced_block_shift)
qed

text \<open>The first fenced block of the input is what the extractor returns.\<close>

lemma extract_json_first_block:
  assumes blk: "fenced_block pre payload post inp"
    and first: "\<And>pre' payload' post'. fenced_block pre' payload' post' inp \<Longrightarrow>
                  length pre < length pre' \<or>
                  (length pre' = length pre \<and> length payload \<le> length payload')"
  shows "extract_json inp = payload"
proof -
  from blk obtain label ws1 ws2 body where
    inp: "inp = pre @ fence @ label @ ws1 @ payload @ ws2 @ fence @ post"
    and payload: "payload = ''{'' @ body @ ''}''"
    and lab: "label = [] \<or> label = ''json''"
    and ws: "list_all is_space ws1" "list_all is_space ws2"
    unfolding fenced_block_def by blast
  define s0 where "s0 = fence @ label @ ws1 @ ''{'' @ body @ ''}'' @ ws2 @ fence @ post"
  define b0 where "b0 = 3 + length label + length ws1"
  have inp0: "inp = pre @ s0" by (simp add: inp payload s0_def)
  from rmatch_fenced_block [OF lab ws, of body post] obtain n k where
    k: "k \<le> length body" and m: "rmatch fenced_pattern s0 0 (0, 0) = Some (n, b0, b0 + k + 2)"
    unfolding s0_def b0_def by blast
  have none: "rmatch fenced_pattern (b @ s0) 0 (0, 0) = None" if "pre = a @ b" "b \<noteq> []" for a b
  proof (rule ccontr)
    assume "rmatch fenced_pattern (b @ s0) 0 (0, 0) \<noteq> None"
    then obtain n' b' e' where "rmatch fenced_pattern (b @ s0) 0 (0, 0) = Some (n', b', e')"
      by auto
    from rmatch_fenced_SomeD [OF this] obtain p' post'
      where "fenced_block [] p' post' (b @ s0)" by blast
    from fenced_block_shift [OF this, of a] have "fenced_block a p' post' inp"
      by (simp add: inp0 that(1))
    from first [OF this] show False using that by simp
  qed
  have found: "re_search fenced_pattern inp = Some (s0, n, b0, b0 + k + 2)"
    unfolding inp0 using re_search_append [of pre fenced_pattern s0, OF none] re_search_hit [OF m]
    by simp
  have "drop b0 s0 = payload @ ws2 @ fence @ post"
    by (simp add: s0_def b0_def payload length_fence)
  moreover have "k + 2 \<le> length payload" using k by (simp add: payload)
  ultimately have g: "take (b0 + k + 2 - b0) (drop b0 s0) = take (k + 2) payload"
    by (simp add: take_append)
  from rmatch_fenced_SomeD [OF m] obtain post'
    where "fenced_block [] (take (k + 2) payload) post' s0" unfolding g by blast
  from fenced_block_shift [OF this, of pre] have "fenced_block pre (take (k + 2) payload) post' inp"
    by (simp add: inp0)
  from first [OF this] have "length payload \<le> length (take (k + 2) payload)" by simp
  then have "take (k + 2) payload = payload" by simp
  with found g show ?thesis by (simp add: extract_json_def group1_def)
qed

text \<open>
  A search finds a match no later than any place at which the pattern matches, and at that
  place the same match.
\<close>

lemma re_search_le:
  "rmatch ps s 0 (0, 0) = Some m \<Longrightarrow>
     \<exists>pre' s' m'. pre @ s = pre' @ s' \<and> re_search ps (pre @ s) = Some (s', m') \<and>
        (length pre' < length pre \<or> (pre' = pre \<and> s' = s \<and> m' = m))"
proof (induction pre)
  case Nil
  from re_search_hit [OF Nil] show ?case by simp
next
  case (Cons x xs)
  show ?case
  proof (cases "rmatch ps ((x # xs) @ s) 0 (0, 0)")
    case (Some m0)
    then have "re_search ps ((x # xs) @ s) = Some ((x # xs) @ s, m0)" by simp
    then have "(x # xs) @ s = [] @ ((x # xs) @ s) \<and>
               re_search ps ((x # xs) @ s) = Some ((x # xs) @ s, m0) \<and>
               length ([]::string) < length (x # xs)" by simp
    then show ?thesis by blast
  next
    case None
    then have r: "re_search ps ((x # xs) @ s) = re_search ps (xs @ s)" by simp
    from Cons.IH [OF Cons.prems] obtain pre' s' m' where
      a: "xs @ s = pre' @ s'" and b: "re_search ps (xs @ s) = Some (s', m')"
      and c: "length pre' < length xs \<or> (pre' = xs \<and> s' = s \<and> m' = m)" by blast
    from a b c r have "(x # xs) @ s = (x # pre') @ s' \<and>
               re_search ps ((x # xs) @ s) = Some (s', m') \<and>
               (length (x # pre') < length (x # xs) \<or> (x # pre' = x # xs \<and> s' = s \<and> m' = m))"
      by simp
    then show ?thesis by blast
  qed
qed

text \<open>
  Whenever the input holds a fenced block, the extractor returns the payload of a fenced
  block that starts no later, and that is no longer when it starts at the same place.
\<close>

lemma extract_json_some_block:
  assumes blk: "fenced_block pre payload post inp"
  shows "\<exists>pre' post'. fenced_block pre' (extract_json inp) post' inp \<and>
           (length pre' < length pre \<or>
            (length pre' = length pre \<and> length (extract_json inp) \<le> length payload))"
proof -
  from blk obtain label ws1 ws2 body where
    inp: "inp = pre @ fence @ label @ ws1 @ payload @ ws2 @ fence @ post"
    and payload: "payload = ''{'' @ body @ ''}''"
    and lab: "label = [] \<or> label = ''json''"
    and ws: "list_all is_space ws1" "list_all is_space ws2"
    unfolding fenced_block_def by blast
  define s0 where "s0 = fence @ label @ ws1 @ ''{'' @ body @ ''}'' @ ws2 @ fence @ post"
  define b0 where "b0 = 3 + length label + length ws1"
  have inp0: "inp = pre @ s0" by (simp add: inp payload s0_def)
  from rmatch_fenced_block [OF lab ws, of body post] obtain n k where
    k: "k \<le> length body" and m: "rmatch fenced_pattern s0 0 (0, 0) = Some (n, b0, b0 + k + 2)"
    unfolding s0_def b0_def by blast
  from re_search_le [OF m, of pre] obtain pre' s' m' where
    d: "inp = pre' @ s'" and f: "re_search fenced_pattern inp = Some (s', m')"
    and c: "length pre' < length pre \<or> (pre' = pre \<and> s' = s0 \<and> m' = (n, b0, b0 + k + 2))"
    unfolding inp0 by blast
  from f have ex: "extract_json inp = group1 (s', m')" by (simp add: extract_json_def)
  obtain n' b' e' where m': "m' = (n', b', e')" by (cases m')
  from re_search_SomeD [OF f] obtain pre'' where
    "inp = pre'' @ s'" and rm: "rmatch fenced_pattern s' 0 (0, 0) = Some m'" by blast
  from rmatch_fenced_SomeD [OF rm [unfolded m']] obtain post'
    where "fenced_block [] (take (e' - b') (drop b' s')) post' s'" by blast
  from fenced_block_shift [OF this, of pre']
  have fb0: "fenced_block pre' (take (e' - b') (drop b' s')) post' (pre' @ s')" by simp
  have exv: "extract_json inp = take (e' - b') (drop b' s')"
    using ex by (simp add: m' group1_def)
  have fb: "fenced_block pre' (extract_json inp) post' inp"
    unfolding exv using fb0 unfolding d [symmetric] .
  from c show ?thesis
  proof
    assume "length pre' < length pre"
    with fb show ?thesis by blast
  next
    assume eq: "pre' = pre \<and> s' = s0 \<and> m' = (n, b0, b0 + k + 2)"
    have dr: "drop b0 s0 = payload @ ws2 @ fence @ post"
      by (simp add: s0_def b0_def payload length_fence)
    have "extract_json inp = take (k + 2) (drop b0 s0)"
      using eq by (simp add: ex group1_def)
    then have "extract_json inp = take (k + 2) (payload @ ws2 @ fence @ post)"
      unfolding dr .
    then have "length (extract_json inp) \<le> length payload"
      using k by (simp add: payload)
    with fb eq show ?thesis by blast
  qed
qed

text \<open>The greedy brace pattern: from the first opening brace to the last closing one.\<close>

lemma rmatch_greedy_none:
  "CHR ''}'' \<notin> set c \<Longrightarrow> rmatch [Star (\<lambda>c. True), Lit ''}''] c n g = None"
  by (induction c arbitrary: n) auto

lemma rmatch_greedy:
  "CHR ''}'' \<notin> set c \<Longrightarrow>
     rmatch [Star (\<lambda>c. True), Lit ''}''] (b @ CHR ''}'' # c) n g = Some (n + length b + 1, g)"
  by (induction b arbitrary: n) (simp_all add: rmatch_greedy_none)

lemma rmatch_brace_SomeD:
  "rmatch brace_pattern s 0 (0, 0) = Some m \<Longrightarrow> \<exists>t. s = CHR ''{'' # t"
  by (cases s) (auto simp: brace_pattern_def split: if_splits)

lemma re_search_brace:
  assumes "CHR ''{'' \<notin> set a" "CHR ''}'' \<notin> set c"
  shows "re_search brace_pattern (a @ ''{'' @ b @ ''}'' @ c)
           = Some (''{'' @ b @ ''}'' @ c, length b + 2, 0, 0)"
proof -
  let ?s = "''{'' @ b @ ''}'' @ c"
  have m: "rmatch brace_pattern ?s 0 (0, 0) = Some (length b + 2, 0, 0)"
    using rmatch_greedy [OF assms(2), of b 1 "(0, 0)"]
    by (simp add: brace_pattern_def del: rmatch.simps(4,5))
  have "rmatch brace_pattern (y @ ?s) 0 (0, 0) = None" if "a = x @ y" "y \<noteq> []" for x y
  proof (cases y)
    case Nil
    with that show ?thesis by simp
  next
    case (Cons z zs)
    with that assms(1) have "z \<noteq> CHR ''{''" by auto
    with Cons show ?thesis by (auto simp: brace_pattern_def)
  qed
  from re_search_append [of a brace_pattern ?s, OF this] re_search_hit [OF m]
  show ?thesis by simp
qed

lemma fenced_block_has_brace: "fenced_block pre payload post inp \<Longrightarrow> CHR ''{'' \<in> set inp"
  by (auto simp: fenced_block_def)

lemma fenced_block_has_fence: "fenced_block pre payload post inp \<Longrightarrow> CHR 0x60 \<in> set inp"
  by (auto simp: fenced_block_def fence_def)

lemma re_search_fenced_None:
  "\<not> (\<exists>pre payload post. fenced_block pre payload post inp) \<Longrightarrow>
     re_search fenced_pattern inp = None"
  using fenced_search_SomeD by (cases "re_search fenced_pattern inp") blast+

lemma re_search_brace_None:
  assumes "CHR ''{'' \<notin> set inp"
  shows "re_search brace_pattern inp = None"
proof (cases "re_search brace_pattern inp")
  case None
  then show ?thesis .
next
  case (Some r)
  obtain s m where "r = (s, m)" by (cases r)
  with Some re_search_SomeD [of brace_pattern inp s m] obtain pre
    where "inp = pre @ s" "rmatch brace_pattern s 0 (0, 0) = Some m" by blast
  with rmatch_brace_SomeD [OF this(2)] assms show ?thesis by auto
qed

text \<open>
  A block that no backquote precedes and whose payload holds no backquote is the first
  fenced block of the input.
\<close>

lemma first_block_simple:
  assumes inp: "inp = pre @ fence @ label @ ws1 @ ''{'' @ body @ ''}'' @ ws2 @ fence @ post"
    and lab: "label = [] \<or> label = ''json''"
    and ws: "list_all is_space ws1" "list_all is_space ws2"
    and nb: "CHR 0x60 \<notin> set pre" "CHR 0x60 \<notin> set body"
    and blk: "fenced_block pre' payload' post' inp"
  shows "length pre < length pre' \<or>
         (length pre' = length pre \<and> length (''{'' @ body @ ''}'') \<le> length payload')"
proof -
  from blk obtain label' ws1' ws2' body' where
    inp': "inp = pre' @ fence @ label' @ ws1' @ payload' @ ws2' @ fence @ post'"
    and payload': "payload' = ''{'' @ body' @ ''}''"
    and lab': "label' = [] \<or> label' = ''json''"
    and ws': "list_all is_space ws1'" "list_all is_space ws2'"
    unfolding fenced_block_def by blast
  have ge: "length pre \<le> length pre'"
  proof (rule ccontr)
    assume "\<not> length pre \<le> length pre'"
    then have lt: "length pre' < length pre" by simp
    have "inp ! length pre' = CHR 0x60"
      by (subst inp') (simp add: fence_def nth_append)
    moreover have "inp ! length pre' = pre ! length pre'"
      by (subst inp) (simp add: nth_append lt)
    ultimately show False using nb(1) lt by (metis nth_mem)
  qed
  show ?thesis
  proof (cases "length pre' = length pre")
    case False
    with ge show ?thesis by simp
  next
    case True
    define s0 where "s0 = fence @ label @ ws1 @ ''{'' @ body @ ''}'' @ ws2 @ fence @ post"
    have s0': "s0 = fence @ label' @ ws1' @ ''{'' @ body' @ ''}'' @ ws2' @ fence @ post'"
      using inp inp' True by (simp add: s0_def payload')
    from rmatch_fenced_block [OF lab' ws', of body' post'] obtain n' k' where
      k': "k' \<le> length body'"
      and m': "rmatch fenced_pattern s0 0 (0, 0)
                 = Some (n', 3 + length label' + length ws1',
                         3 + length label' + length ws1' + k' + 2)"
      unfolding s0' by blast
    have cl: "closes_block (ws2 @ fence @ post)" by (rule closes_blockI [OF ws(2)])
    have exact: "find_close (bd @ CHR ''}'' # ws2 @ fence @ post) = Some (length bd)"
      if "CHR 0x60 \<notin> set bd" for bd
      using that
    proof (induction bd)
      case Nil
      with cl show ?case by simp
    next
      case (Cons x xs)
      from Cons.prems have nb': "CHR 0x60 \<notin> set xs" by simp
      have "\<not> closes_block (xs @ CHR ''}'' # ws2 @ fence @ post)"
      proof (cases "dropWhile is_space xs")
        case Nil
        then have "dropWhile is_space (xs @ CHR ''}'' # ws2 @ fence @ post)
                     = CHR ''}'' # ws2 @ fence @ post"
          by (simp add: dropWhile_append)
        then show ?thesis by (simp add: closes_block_def fence_def)
      next
        case (Cons y ys)
        then have "y \<in> set xs" by (metis list.set_intros(1) set_dropWhileD)
        with nb' have "y \<noteq> CHR 0x60" by auto
        moreover have "dropWhile is_space (xs @ CHR ''}'' # ws2 @ fence @ post)
                     = y # ys @ CHR ''}'' # ws2 @ fence @ post"
          using Cons dropWhile_Cons_D [OF Cons] by (auto simp: dropWhile_append)
        ultimately show ?thesis by (simp add: closes_block_def fence_def)
      qed
      with Cons show ?case by simp
    qed
    have d3: "drop 3 s0 = label @ ws1 @ CHR ''{'' # body @ CHR ''}'' # ws2 @ fence @ post"
      by (simp add: s0_def fence_def)
    have ll: "label_len (drop 3 s0) = length label"
      unfolding d3 using lab ws(1) by (rule label_len_block)
    have r: "drop (length label) (drop 3 s0)
               = ws1 @ CHR ''{'' # body @ CHR ''}'' # ws2 @ fence @ post"
      unfolding d3 by simp
    have tw: "takeWhile is_space (ws1 @ CHR ''{'' # body @ CHR ''}'' # ws2 @ fence @ post) = ws1"
      using ws(1) by (simp add: takeWhile_append2 list_all_iff)
    have dw: "dropWhile is_space (ws1 @ CHR ''{'' # body @ CHR ''}'' # ws2 @ fence @ post)
                = CHR ''{'' # body @ CHR ''}'' # ws2 @ fence @ post"
      using ws(1) by (simp add: dropWhile_append2 list_all_iff)
    have pf: "prefix fence s0" by (simp add: s0_def)
    have "\<exists>n. rmatch fenced_pattern s0 0 (0, 0)
            = Some (n, 3 + length label + length ws1,
                    3 + length label + length ws1 + 1 + length body + 1)"
      apply (subst rmatch_fenced)
      apply (simp only: pf if_True Let_def ll r tw dw list.case exact [OF nb(2)] option.case
               simp_thms)
      apply blast
      done
    with m' have "3 + length label' + length ws1' = 3 + length label + length ws1"
      and "3 + length label' + length ws1' + k' + 2
             = 3 + length label + length ws1 + 1 + length body + 1"
      by auto
    then have "k' = length body" by simp
    with k' True show ?thesis by (simp add: payload')
  qed
qed

section \<open>Properties of the planning loop\<close>

lemma update_new: "k \<notin> fst ` set al \<Longrightarrow> AList.update k v al = al @ [(k, v)]"
  by (induction al) auto

lemma rounds_of_append: "rounds_of (a @ b) = rounds_of a @ rounds_of b"
  by (induction a rule: rounds_of.induct) simp_all

lemma invoked_names_append: "invoked_names (a @ b) = invoked_names a @ invoked_names b"
  by (induction a rule: invoked_names.induct) simp_all

lemma returned_pairs_append: "returned_pairs (a @ b) = returned_pairs a @ returned_pairs b"
  by (induction a rule: returned_pairs.induct) simp_all

lemma raised_names_append: "raised_names (a @ b) = raised_names a @ raised_names b"
  by (induction a rule: raised_names.induct) simp_all

lemma never_reinvoked_append:
  "never_reinvoked (a @ b) \<longleftrightarrow>
     never_reinvoked a \<and> never_reinvoked b \<and>
     (\<forall>n\<in>set (map fst (returned_pairs a)). n \<notin> set (invoked_names b))"
  by (induction a rule: never_reinvoked.induct) (auto simp: invoked_names_append)

lemma session_inv_keys:
  "session_inv (st, log) \<Longrightarrow> fst ` set (s_tool_results st) = set (s_tools_used st)"
  by (simp add: session_inv_def)

lemma session_inv_llm: "session_inv (st, log) \<Longrightarrow> session_inv (st, log @ [LlmInvoked i])"
  by (auto simp add: session_inv_def returned_pairs_append never_reinvoked_append)

lemma session_inv_raised:
  "session_inv (st, log) \<Longrightarrow> name \<notin> fst ` set (s_tool_results st) \<Longrightarrow>
     session_inv (st, log @ [ToolInvoked i name (Raised e)])"
  by (auto simp add: session_inv_def returned_pairs_append never_reinvoked_append)

lemma session_inv_returned:
  "session_inv (st, log) \<Longrightarrow> name \<notin> fst ` set (s_tool_results st) \<Longrightarrow>
     session_inv (st\<lparr>s_tool_results := AList.update name result (s_tool_results st),
                     s_tools_used := s_tools_used st @ [name]\<rparr>,
                  log @ [ToolInvoked i name (Returned result)])"
  by (auto simp add: session_inv_def returned_pairs_append never_reinvoked_append update_new)

lemma session_inv_fields:
  "session_inv (st, log) \<Longrightarrow> session_inv (st\<lparr>s_summary := a\<rparr>, log)"
  "session_inv (st, log) \<Longrightarrow> session_inv (st\<lparr>s_sources := b\<rparr>, log)"
  by (auto simp add: session_inv_def)

lemma call_tools_inv:
  "session_inv (st, log) \<Longrightarrow> session_inv (snd (call_tools tm q i names (st, log)))"
proof (induction names arbitrary: st log)
  case Nil
  then show ?case by simp
next
  case (Cons x xs)
  show ?case
  proof (cases x)
    case (JStr name)
    show ?thesis
    proof (cases "tm name")
      case None
      with JStr Cons show ?thesis by simp
    next
      case (Some t)
      show ?thesis
      proof (cases "name \<in> fst ` set (s_tool_results st)")
        case True
        with JStr Some Cons show ?thesis by simp
      next
        case False
        show ?thesis
        proof (cases "t i q")
          case (Returned result)
          from session_inv_returned [OF Cons.prems False]
          have "session_inv (st\<lparr>s_tool_results := AList.update name result (s_tool_results st),
                     s_tools_used := s_tools_used st @ [name]\<rparr>,
                  log @ [ToolInvoked i name (Returned result)])" .
          from Cons.IH [OF this] JStr Some False Returned show ?thesis by simp
        next
          case (Raised e)
          with JStr Some False session_inv_raised [OF Cons.prems False] show ?thesis by simp
        qed
      qed
    qed
  qed (use Cons in simp_all)
qed

lemma call_tools_frame:
  "call_tools tm q i names (st, log) = (e, st', log') \<Longrightarrow>
     rounds_of log' = rounds_of log \<and> s_topic st' = s_topic st \<and>
     s_summary st' = s_summary st \<and> s_sources st' = s_sources st"
proof (induction names arbitrary: st log)
  case Nil
  then show ?case by simp
next
  case (Cons x xs)
  show ?case
  proof (cases x)
    case (JStr name)
    show ?thesis
    proof (cases "tm name")
      case None
      with JStr Cons show ?thesis by simp
    next
      case (Some t)
      show ?thesis
      proof (cases "name \<in> fst ` set (s_tool_results st)")
        case True
        with JStr Some Cons show ?thesis by simp
      next
        case False
        show ?thesis
        proof (cases "t i q")
          case (Returned result)
          with JStr Some False Cons.prems
          have "call_tools tm q i xs
                  (st\<lparr>s_tool_results := AList.update name result (s_tool_results st),
                       s_tools_used := s_tools_used st @ [name]\<rparr>,
                   log @ [ToolInvoked i name (Returned result)]) = (e, st', log')"
            by simp
          from Cons.IH [OF this] show ?thesis by (simp add: rounds_of_append)
        next
          case (Raised err)
          with JStr Some False Cons.prems show ?thesis by (auto simp: rounds_of_append)
        qed
      qed
    qed
  qed (use Cons in auto)
qed

lemma run_plan_inv:
  assumes "session_inv (st, log)"
  shows "session_inv (snd (run_plan tm q i plan (st, log)))"
proof -
  let ?st2 = "st\<lparr>s_summary := dict_get plan ''summary'' (s_summary st),
                  s_sources := dict_get plan ''sources'' (s_sources st)\<rparr>"
  have inv2: "session_inv (?st2, log)"
    using assms by (auto simp: session_inv_def)
  show ?thesis
  proof (cases "py_iter (dict_get plan ''tools_used'' (JArr []))")
    case None
    with inv2 show ?thesis by (simp add: run_plan_def Let_def)
  next
    case (Some names)
    from call_tools_inv [OF inv2, of tm q i names] Some inv2 show ?thesis
      by (auto simp: run_plan_def Let_def split: prod.splits option.splits)
  qed
qed

lemma run_plan_frame:
  assumes "run_plan tm q i plan (st, log) = (r, st', log')"
  shows "rounds_of log' = rounds_of log \<and> s_topic st' = s_topic st \<and>
         s_summary st' = dict_get plan ''summary'' (s_summary st) \<and>
         s_sources st' = dict_get plan ''sources'' (s_sources st)"
proof -
  let ?st2 = "st\<lparr>s_summary := dict_get plan ''summary'' (s_summary st),
                  s_sources := dict_get plan ''sources'' (s_sources st)\<rparr>"
  show ?thesis
  proof (cases "py_iter (dict_get plan ''tools_used'' (JArr []))")
    case None
    with assms show ?thesis by (auto simp: run_plan_def Let_def split: if_splits)
  next
    case (Some names)
    obtain e st3 log3 where ct: "call_tools tm q i names (?st2, log) = (e, st3, log3)"
      by (cases "call_tools tm q i names (?st2, log)") auto
    from call_tools_frame [OF ct] have
      "rounds_of log3 = rounds_of log \<and> s_topic st3 = s_topic st \<and>
       s_summary st3 = dict_get plan ''summary'' (s_summary st) \<and>
       s_sources st3 = dict_get plan ''sources'' (s_sources st)" by simp
    with assms Some ct show ?thesis
      by (auto simp: run_plan_def Let_def split: if_splits option.splits)
  qed
qed

lemma round_body_inv:
  assumes "session_inv sl"
  shows "session_inv (snd (round_body llm loads tm q i sl))"
proof -
  obtain st log where sl: "sl = (st, log)" by (cases sl)
  from assms sl have "session_inv (st, log @ [LlmInvoked i])"
    by (simp add: session_inv_llm)
  with run_plan_inv [OF this, of tm q i] show ?thesis
    by (simp add: round_body_def sl split: llm_reply.splits option.splits json.splits)
qed

lemma round_body_frame:
  assumes "round_body llm loads tm q i (st, log) = (r, st', log')"
  shows "rounds_of log' = rounds_of log @ [i] \<and> s_topic st' = s_topic st"
proof (cases "llm i st")
  case LlmRaises
  with assms show ?thesis by (auto simp: round_body_def rounds_of_append)
next
  case (LlmText t)
  show ?thesis
  proof (cases "loads (extract_json t)")
    case None
    with assms LlmText show ?thesis by (auto simp: round_body_def rounds_of_append)
  next
    case (Some v)
    show ?thesis
    proof (cases v)
      case (JObj plan)
      with assms LlmText Some
      have "run_plan tm q i plan (st, log @ [LlmInvoked i]) = (r, st', log')"
        by (simp add: round_body_def)
      from run_plan_frame [OF this] show ?thesis by (simp add: rounds_of_append)
    qed (use assms LlmText Some in \<open>auto simp: round_body_def rounds_of_append\<close>)
  qed
qed

lemma research_loop_inv:
  "session_inv sl \<Longrightarrow> session_inv (research_loop llm loads tm q i n sl)"
proof (induction n arbitrary: i sl)
  case 0
  then show ?case by simp
next
  case (Suc n)
  obtain r sl' where rb: "round_body llm loads tm q i sl = (r, sl')"
    by (cases "round_body llm loads tm q i sl")
  from round_body_inv [OF Suc.prems, of llm loads tm q i] rb have inv': "session_inv sl'"
    by simp
  show ?case
  proof (cases "r = Converged")
    case True
    with rb inv' show ?thesis by simp
  next
    case False
    with rb have "research_loop llm loads tm q i (Suc n) sl
                    = research_loop llm loads tm q (Suc i) n sl'"
      by (cases r) simp_all
    with Suc.IH [OF inv'] show ?thesis by simp
  qed
qed

lemma research_loop_rounds:
  "\<exists>k\<le>n. rounds_of (snd (research_loop llm loads tm q i n sl)) = rounds_of (snd sl) @ [i..<i + k]"
proof (induction n arbitrary: i sl)
  case 0
  show ?case by simp
next
  case (Suc n)
  obtain st log where sl: "sl = (st, log)" by (cases sl)
  obtain r st' log' where rb: "round_body llm loads tm q i (st, log) = (r, st', log')"
    by (cases "round_body llm loads tm q i (st, log)") auto
  from round_body_frame [OF rb] have ro: "rounds_of log' = rounds_of log @ [i]" by simp
  show ?case
  proof (cases "r = Converged")
    case True
    with rb sl ro have "rounds_of (snd (research_loop llm loads tm q i (Suc n) sl))
                          = rounds_of (snd sl) @ [i..<i + 1]" by simp
    then show ?thesis by (intro exI [of _ 1]) simp
  next
    case False
    with rb sl have eq: "research_loop llm loads tm q i (Suc n) sl
                    = research_loop llm loads tm q (Suc i) n (st', log')"
      by (cases r) simp_all
    from Suc.IH [of "Suc i" "(st', log')"] obtain k where k: "k \<le> n"
      and "rounds_of (snd (research_loop llm loads tm q (Suc i) n (st', log')))
             = rounds_of log' @ [Suc i..<Suc i + k]" by auto
    with eq ro sl have "rounds_of (snd (research_loop llm loads tm q i (Suc n) sl))
                          = rounds_of (snd sl) @ [i..<i + Suc k]"
      by (simp add: upt_rec [of i])
    with k show ?thesis by (intro exI [of _ "Suc k"]) simp
  qed
qed

lemma research_loop_topic:
  "s_topic (fst (research_loop llm loads tm q i n sl)) = s_topic (fst sl)"
proof (induction n arbitrary: i sl)
  case 0
  show ?case by simp
next
  case (Suc n)
  obtain st log where sl: "sl = (st, log)" by (cases sl)
  obtain r st' log' where rb: "round_body llm loads tm q i (st, log) = (r, st', log')"
    by (cases "round_body llm loads tm q i (st, log)") auto
  from round_body_frame [OF rb] have tp: "s_topic st' = s_topic st" by simp
  show ?case
  proof (cases "r = Converged")
    case True
    with rb sl tp show ?thesis by simp
  next
    case False
    with rb sl have "research_loop llm loads tm q i (Suc n) sl
                    = research_loop llm loads tm q (Suc i) n (st', log')"
      by (cases r) simp_all
    with Suc.IH [of "Suc i" "(st', log')"] tp sl show ?thesis by simp
  qed
qed


lemma never_reinvoked_count:
  "never_reinvoked log \<Longrightarrow> name \<notin> set (raised_names log) \<Longrightarrow>
     count_list (invoked_names log) name \<le> 1"
  by (induction log rule: never_reinvoked.induct) (auto simp: count_list_0_iff)

lemma session_inv_initial: "session_inv (initial_state query, [])"
  by (simp add: session_inv_def initial_state_def)


lemma distinct_count_list: "distinct xs \<Longrightarrow> x \<in> set xs \<Longrightarrow> count_list xs x = 1"
  by (induction xs) (auto simp: count_list_0_iff)


lemma validate_summary:
  "summary_ok v \<Longrightarrow>
     \<exists>s. validate_str (py_or v (JStr ''Unable to complete research'')) = Some s \<and>
         (\<not> truthy v \<longrightarrow> s = ''Unable to complete research'')"
  by (cases v) (auto simp: summary_ok_def py_or_def)

lemma validate_sources:
  "sources_ok v \<Longrightarrow> \<exists>l. validate_str_list (py_or v (JArr [])) = Some l"
  by (cases v) (auto simp: sources_ok_def py_or_def split: option.splits)

lemma not_summary_ok:
  "\<not> summary_ok v \<Longrightarrow> validate_str (py_or v (JStr ''Unable to complete research'')) = None"
  by (cases v) (auto simp: summary_ok_def py_or_def)

lemma not_sources_ok:
  "\<not> sources_ok v \<Longrightarrow> validate_str_list (py_or v (JArr [])) = None"
  by (cases v) (auto simp: sources_ok_def py_or_def split: option.splits)

lemma validate_str_SomeD: "validate_str v = Some s \<Longrightarrow> v = JStr s"
  by (cases v) auto

lemma those_validate_str: "those (map validate_str xs) = Some l \<Longrightarrow> xs = map JStr l"
proof (induction xs arbitrary: l)
  case Nil
  then show ?case by simp
next
  case (Cons x xs)
  then show ?case
    by (auto split: option.splits dest: validate_str_SomeD)
qed

lemma validate_str_list_SomeD: "validate_str_list v = Some l \<Longrightarrow> v = JArr (map JStr l)"
  by (cases v) (auto dest: those_validate_str)

lemma run_plan_converged:
  "fst (run_plan tm q i plan (st, log)) = Converged \<longleftrightarrow>
     \<not> truthy (dict_get plan ''tools_used'' (JArr [])) \<and>
     truthy (dict_get plan ''summary'' (s_summary st)) \<and>
     2 \<le> length (s_tools_used st)"
  by (auto simp: run_plan_def Let_def split: option.splits prod.splits)

lemma round_body_converged:
  "fst (round_body llm loads tm q i (st, log)) = Converged \<longleftrightarrow>
     (\<exists>reply plan. llm i st = LlmText reply \<and> loads (extract_json reply) = Some (JObj plan) \<and>
        \<not> truthy (dict_get plan ''tools_used'' (JArr [])) \<and>
        truthy (dict_get plan ''summary'' (s_summary st)) \<and>
        2 \<le> length (s_tools_used st))"
proof (cases "llm i st")
  case LlmRaises
  then show ?thesis by (simp add: round_body_def)
next
  case (LlmText reply)
  show ?thesis
  proof (cases "loads (extract_json reply)")
    case None
    with LlmText show ?thesis by (simp add: round_body_def)
  next
    case (Some v)
    with LlmText show ?thesis
      by (cases v) (simp_all add: round_body_def run_plan_converged)
  qed
qed

lemma research_loop_step:
  "research_loop llm loads tm q i (Suc n) sl
     = (if fst (round_body llm loads tm q i sl) = Converged
        then snd (round_body llm loads tm q i sl)
        else research_loop llm loads tm q (Suc i) n (snd (round_body llm loads tm q i sl)))"
proof -
  obtain r sl' where rb: "round_body llm loads tm q i sl = (r, sl')"
    by (cases "round_body llm loads tm q i sl")
  then show ?thesis by (cases r) simp_all
qed

lemma research_loop_runs_first:
  "i \<in> set (rounds_of (snd (research_loop llm loads tm q i (Suc n) sl)))"
proof -
  obtain st log where sl: "sl = (st, log)" by (cases sl)
  obtain r st' log' where rb: "round_body llm loads tm q i (st, log) = (r, st', log')"
    by (cases "round_body llm loads tm q i (st, log)") auto
  from round_body_frame [OF rb] have ro: "rounds_of log' = rounds_of log @ [i]" by simp
  from research_loop_rounds [of n llm loads tm q "Suc i" "(st', log')"] obtain k where
    "rounds_of (snd (research_loop llm loads tm q (Suc i) n (st', log')))
       = rounds_of log' @ [Suc i..<Suc i + k]" by auto
  with ro rb sl show ?thesis
    unfolding research_loop_step by simp
qed


lemma call_tools_unknown:
  "tm name = None \<Longrightarrow>
     call_tools tm q i (before @ JStr name # after) sl = call_tools tm q i (before @ after) sl"
proof (induction before arbitrary: sl)
  case Nil
  obtain st log where "sl = (st, log)" by (cases sl)
  with Nil show ?case by simp
next
  case (Cons x xs)
  obtain st log where sl: "sl = (st, log)" by (cases sl)
  show ?case
  proof (cases x)
    case (JStr n)
    show ?thesis
    proof (cases "tm n")
      case None
      with JStr sl Cons show ?thesis by simp
    next
      case (Some t)
      show ?thesis
      proof (cases "n \<in> fst ` set (s_tool_results st)")
        case True
        with JStr Some sl Cons show ?thesis by simp
      next
        case False
        with JStr Some sl Cons show ?thesis by (cases "t i q") simp_all
      qed
    qed
  qed (use sl Cons in simp_all)
qed

lemma call_tools_unknown_absent:
  "tm name = None \<Longrightarrow> call_tools tm q i names (st, log) = (e, st', log') \<Longrightarrow>
     (name \<in> fst ` set (s_tool_results st') \<longleftrightarrow> name \<in> fst ` set (s_tool_results st)) \<and>
     (name \<in> set (s_tools_used st') \<longleftrightarrow> name \<in> set (s_tools_used st)) \<and>
     (name \<in> set (invoked_names log') \<longleftrightarrow> name \<in> set (invoked_names log))"
proof (induction names arbitrary: st log)
  case Nil
  then show ?case by simp
next
  case (Cons x xs)
  show ?case
  proof (cases x)
    case (JStr n)
    show ?thesis
    proof (cases "tm n")
      case None
      with JStr Cons show ?thesis by simp
    next
      case (Some t)
      with Cons.prems(1) have ne: "n \<noteq> name" by auto
      show ?thesis
      proof (cases "n \<in> fst ` set (s_tool_results st)")
        case True
        with JStr Some Cons show ?thesis by simp
      next
        case False
        show ?thesis
        proof (cases "t i q")
          case (Returned result)
          with JStr Some False Cons.prems
          have "call_tools tm q i xs
                  (st\<lparr>s_tool_results := AList.update n result (s_tool_results st),
                       s_tools_used := s_tools_used st @ [n]\<rparr>,
                   log @ [ToolInvoked i n (Returned result)]) = (e, st', log')"
            by simp
          from Cons.IH [OF Cons.prems(1) this] ne show ?thesis
            by (auto simp: invoked_names_append AList.dom_update)
        next
          case (Raised err)
          with JStr Some False Cons.prems ne show ?thesis
            by (auto simp: invoked_names_append)
        qed
      qed
    qed
  qed (use Cons in auto)
qed

lemma run_plan_unknown_end:
  assumes "tm name = None"
    and "dict_get plan ''tools_used'' (JArr []) = JArr (before @ JStr name # after)"
    and "dict_get plan' ''tools_used'' (JArr []) = JArr (before @ after)"
    and "map_of plan' ''summary'' = map_of plan ''summary''"
    and "map_of plan' ''sources'' = map_of plan ''sources''"
  shows "run_plan tm q i plan sl
           = (if fst (run_plan tm q i plan' sl) = Converged
              then (Completed, snd (run_plan tm q i plan' sl))
              else run_plan tm q i plan' sl)"
proof -
  obtain st log where sl: "sl = (st, log)" by (cases sl)
  let ?st2 = "st\<lparr>s_summary := dict_get plan ''summary'' (s_summary st),
                  s_sources := dict_get plan ''sources'' (s_sources st)\<rparr>"
  let ?loop = "case call_tools tm q i (before @ after) (?st2, log) of
                 (None, sl') \<Rightarrow> (Completed, sl') | (Some e, sl') \<Rightarrow> (Failed e, sl')"
  have g: "dict_get plan' ''summary'' = dict_get plan ''summary''"
    "dict_get plan' ''sources'' = dict_get plan ''sources''"
    using assms(4,5) by (simp_all add: dict_get_def fun_eq_iff)
  have ct: "call_tools tm q i (before @ JStr name # after) (?st2, log)
              = call_tools tm q i (before @ after) (?st2, log)"
    using assms(1) by (rule call_tools_unknown)
  have l: "run_plan tm q i plan sl = ?loop"
    by (simp add: run_plan_def sl assms(2) ct Let_def)
  have nc: "fst ?loop \<noteq> Converged"
    by (simp split: prod.splits option.splits)
  show ?thesis
  proof (cases "before @ after = [] \<and> truthy (dict_get plan ''summary'' (s_summary st)) \<and>
                2 \<le> length (s_tools_used st)")
    case True
    then have r: "run_plan tm q i plan' sl = (Converged, ?st2, log)"
      by (simp add: run_plan_def sl assms(3) g Let_def)
    from True have "?loop = (Completed, ?st2, log)" by simp
    with l r show ?thesis by simp
  next
    case False
    then have r: "run_plan tm q i plan' sl = ?loop"
      by (cases "before @ after") (auto simp add: run_plan_def sl assms(3) g Let_def)
    with l nc show ?thesis by simp
  qed
qed

lemma dict_get_with_topic:
  "k \<noteq> ''topic'' \<Longrightarrow> dict_get (AList.update ''topic'' v plan) k d = dict_get plan k d"
  by (simp add: dict_get_def AList.update_conv')

lemma run_plan_with_topic:
  "run_plan tm q i (AList.update ''topic'' v plan) sl = run_plan tm q i plan sl"
  by (simp add: run_plan_def dict_get_with_topic)

lemma round_body_with_topic:
  "round_body llm (\<lambda>t. map_option (with_topic v) (loads t)) tm q i sl
     = round_body llm loads tm q i sl"
proof -
  obtain st log where sl: "sl = (st, log)" by (cases sl)
  show ?thesis
  proof (cases "llm i st")
    case LlmRaises
    with sl show ?thesis by (simp add: round_body_def)
  next
    case (LlmText reply)
    show ?thesis
    proof (cases "loads (extract_json reply)")
      case None
      with LlmText sl show ?thesis by (simp add: round_body_def)
    next
      case (Some j)
      with LlmText sl show ?thesis
        by (cases j) (simp_all add: round_body_def run_plan_with_topic)
    qed
  qed
qed

lemma research_loop_with_topic:
  "research_loop llm (\<lambda>t. map_option (with_topic v) (loads t)) tm q i n sl
     = research_loop llm loads tm q i n sl"
proof (induction n arbitrary: i sl)
  case 0
  show ?case by simp
next
  case (Suc n)
  show ?case
    unfolding research_loop_step round_body_with_topic Suc.IH by (rule refl)
qed

lemma research_topic:
  assumes "research llm loads agent query max_iterations = Inr (response, agent')"
  shows "topic response = query"
proof -
  let ?run = "research_loop llm loads (tool_map agent) query 1 (nat max_iterations)
                (initial_state query, [])"
  obtain st log where run: "?run = (st, log)" by (cases ?run)
  from research_loop_topic [of llm loads "tool_map agent" query 1 "nat max_iterations"
                               "(initial_state query, [])"] run
  have "s_topic st = query" by (simp add: initial_state_def)
  with assms run show ?thesis
    by (auto simp: research_def new_response_def split: option.splits sum.splits)
qed

subsection \<open>The example sessions, evaluated\<close>

lemma extract_json_braced:
  assumes "CHR 0x60 \<notin> set b" "CHR ''}'' \<notin> set c" "CHR 0x60 \<notin> set c"
  shows "extract_json (''{'' @ b @ ''}'' @ c) = ''{'' @ b @ ''}''"
proof -
  have "\<not> (\<exists>pre payload post. fenced_block pre payload post (''{'' @ b @ ''}'' @ c))"
  proof
    assume "\<exists>pre payload post. fenced_block pre payload post (''{'' @ b @ ''}'' @ c)"
    then obtain pre payload post
      where "fenced_block pre payload post (''{'' @ b @ ''}'' @ c)" by blast
    from fenced_block_has_fence [OF this] assms show False by simp
  qed
  then have f: "re_search fenced_pattern (''{'' @ b @ ''}'' @ c) = None"
    by (rule re_search_fenced_None)
  from re_search_brace [of "[]" c b] assms(2)
  have g: "re_search brace_pattern (''{'' @ b @ ''}'' @ c)
             = Some (''{'' @ b @ ''}'' @ c, length b + 2, 0, 0)" by simp
  show ?thesis unfolding extract_json_def f g by (simp add: group0_def)
qed

lemma extract_json_plain:
  assumes "CHR ''{'' \<notin> set inp"
  shows "extract_json inp = inp"
proof -
  have "\<not> (\<exists>pre payload post. fenced_block pre payload post inp)"
  proof
    assume "\<exists>pre payload post. fenced_block pre payload post inp"
    then obtain pre payload post where "fenced_block pre payload post inp" by blast
    from fenced_block_has_brace [OF this] assms show False by contradiction
  qed
  then have f: "re_search fenced_pattern inp = None"
    by (rule re_search_fenced_None)
  from assms have g: "re_search brace_pattern inp = None"
    by (rule re_search_brace_None)
  show ?thesis unfolding extract_json_def f g by simp
qed

lemma demo_extract:
  "extract_json ''{ghost}'' = ''{ghost}''"
  "extract_json ''{flaky}'' = ''{flaky}''"
  "extract_json ''{both}'' = ''{both}''"
  "extract_json ''{final}'' = ''{final}''"
  "extract_json ''{X}'' = ''{X}''"
  "extract_json ''{topic}'' = ''{topic}''"
  "extract_json ''{list}'' = ''{list}''"
  "extract_json ''{badsrc}'' = ''{badsrc}''"
  "extract_json ''garbage'' = ''garbage''"
proof -
  show "extract_json ''{ghost}'' = ''{ghost}''"
    using extract_json_braced [of "''ghost''" "[]"] by simp
  show "extract_json ''{flaky}'' = ''{flaky}''"
    using extract_json_braced [of "''flaky''" "[]"] by simp
  show "extract_json ''{both}'' = ''{both}''"
    using extract_json_braced [of "''both''" "[]"] by simp
  show "extract_json ''{final}'' = ''{final}''"
    using extract_json_braced [of "''final''" "[]"] by simp
  show "extract_json ''{X}'' = ''{X}''"
    using extract_json_braced [of "''X''" "[]"] by simp
  show "extract_json ''{topic}'' = ''{topic}''"
    using extract_json_braced [of "''topic''" "[]"] by simp
  show "extract_json ''{list}'' = ''{list}''"
    using extract_json_braced [of "''list''" "[]"] by simp
  show "extract_json ''{badsrc}'' = ''{badsrc}''"
    using extract_json_braced [of "''badsrc''" "[]"] by simp
  show "extract_json ''garbage'' = ''garbage''"
    by (rule extract_json_plain) simp
qed

lemmas demo_eval =
  round_body_def run_plan_def dict_get_def Let_def demo_extract demo_loads_def untyped_loads_def
  always_def scripted_def demo_agent_def add_tool_def init_tools_def search_tool_def wiki_tool_def
  save_tool_def ok_service_def down_service_def flaky_tool_def initial_state_def

lemma both_run:
  "research_loop (scripted [LlmText ''{both}'', LlmText ''{both}'', LlmText ''{final}''])
     demo_loads (tool_map demo_agent) ''q'' 1 (Suc (Suc (Suc (Suc 0)))) (initial_state ''q'', [])
   = (\<lparr>s_tools_used = [''search_tool'', ''wiki_tool''],
        s_tool_results = [(''search_tool'', ''Search error: timeout''),
                          (''wiki_tool'', ''Wikipedia: results'')],
        s_topic = ''q'', s_summary = JStr ''final'', s_sources = JArr [JStr ''a'', JStr ''b'']\<rparr>,
      [LlmInvoked 1,
       ToolInvoked 1 ''search_tool'' (Returned ''Search error: timeout''),
       ToolInvoked 1 ''wiki_tool'' (Returned ''Wikipedia: results''),
       LlmInvoked 2, LlmInvoked 3])"
  by (simp add: demo_eval)

lemma flaky_run:
  "research_loop (always ''{flaky}'') demo_loads (tool_map demo_agent) ''q'' 1 (Suc (Suc 0))
     (initial_state ''q'', [])
   = (\<lparr>s_tools_used = [], s_tool_results = [], s_topic = ''q'', s_summary = JStr [],
        s_sources = JArr []\<rparr>,
      [LlmInvoked 1, ToolInvoked 1 ''flaky_tool'' (Raised ''boom''),
       LlmInvoked 2, ToolInvoked 2 ''flaky_tool'' (Raised ''boom'')])"
  by (simp add: demo_eval)

lemma rough_run:
  "research_loop (scripted [LlmRaises, LlmText ''garbage'', LlmText ''{flaky}''])
     demo_loads (tool_map demo_agent) ''q'' 1 (Suc (Suc (Suc 0))) (initial_state ''q'', [])
   = (\<lparr>s_tools_used = [], s_tool_results = [], s_topic = ''q'', s_summary = JStr [],
        s_sources = JArr []\<rparr>,
      [LlmInvoked 1, LlmInvoked 2, LlmInvoked 3,
       ToolInvoked 3 ''flaky_tool'' (Raised ''boom'')])"
  by (simp add: demo_eval)

lemma badsrc_run:
  "research_loop (always ''{badsrc}'') untyped_loads (tool_map demo_agent) ''q'' 1
     (Suc (Suc (Suc (Suc (Suc 0))))) (initial_state ''q'', [])
   = (\<lparr>s_tools_used = [], s_tool_results = [], s_topic = ''q'', s_summary = JStr ''ok'',
        s_sources = JStr ''wikipedia''\<rparr>,
      [LlmInvoked 1, LlmInvoked 2, LlmInvoked 3, LlmInvoked 4, LlmInvoked 5])"
  by (simp add: demo_eval)

lemma x_round:
  "round_body (always ''{X}'') demo_loads (tool_map demo_agent) ''q'' 1 (initial_state ''q'', [])
   = (Completed,
      \<lparr>s_tools_used = [], s_tool_results = [], s_topic = ''q'', s_summary = JStr ''X'',
        s_sources = JArr []\<rparr>, [LlmInvoked 1])"
  by (simp add: demo_eval)

lemma x_both_run:
  "research_loop (scripted [LlmText ''{X}'', LlmText ''{both}'']) demo_loads (tool_map demo_agent)
     ''q'' 1 (Suc (Suc 0)) (initial_state ''q'', [])
   = (\<lparr>s_tools_used = [''search_tool'', ''wiki_tool''],
        s_tool_results = [(''search_tool'', ''Search error: timeout''),
                          (''wiki_tool'', ''Wikipedia: results'')],
        s_topic = ''q'', s_summary = JStr ''X'', s_sources = JArr []\<rparr>,
      [LlmInvoked 1, LlmInvoked 2,
       ToolInvoked 2 ''search_tool'' (Returned ''Search error: timeout''),
       ToolInvoked 2 ''wiki_tool'' (Returned ''Wikipedia: results'')])"
  by (simp add: demo_eval)

lemma ghost_call:
  "call_tools (tool_map demo_agent) ''q'' 1 [JStr ''search_tool'', JStr ''wiki_tool'']
     (initial_state ''q'', [])
   = (None,
      \<lparr>s_tools_used = [''search_tool'', ''wiki_tool''],
        s_tool_results = [(''search_tool'', ''Search error: timeout''),
                          (''wiki_tool'', ''Wikipedia: results'')],
        s_topic = ''q'', s_summary = JStr [], s_sources = JArr []\<rparr>,
      [ToolInvoked 1 ''search_tool'' (Returned ''Search error: timeout''),
       ToolInvoked 1 ''wiki_tool'' (Returned ''Wikipedia: results'')])"
  by (simp add: demo_eval)

lemma topic_run:
  "research_loop (always ''{topic}'') demo_loads (tool_map demo_agent) ''q'' 1 (Suc 0)
     (initial_state ''q'', [])
   = (\<lparr>s_tools_used = [], s_tool_results = [], s_topic = ''q'', s_summary = JStr ''X'',
        s_sources = JArr []\<rparr>, [LlmInvoked 1])"
  by (simp add: demo_eval)

section \<open>The claims\<close>

text \<open>
  Claim C1. For every query, every value of \<^verbatim>\<open>max_iterations\<close> and every behaviour of
  the model, of \<^verbatim>\<open>json.loads\<close> and of the tools, the loop runs the rounds 1, \<dots>, k for
  some k that is at most \<^verbatim>\<open>max_iterations\<close> (no round at all when \<^verbatim>\<open>max_iterations\<close>
  is zero or negative) and then ends: \<open>research_loop\<close> is a total function, and the cap
  does not depend on convergence. A model that asks for the same tool in every round and
  never has it invoked is one of these behaviours.
\<close>

theorem research_loop_iteration_cap:
  "\<exists>k. k \<le> nat max_iterations \<and>
       rounds_of (snd (research_loop llm loads tm query 1 (nat max_iterations)
                         (initial_state query, []))) = [1..<Suc k]"
  using research_loop_rounds [of "nat max_iterations" llm loads tm query 1 "(initial_state query, [])"]
  by auto

lemma ghost_run:
  "research_loop (always ''{ghost}'') demo_loads (tool_map demo_agent) ''q'' 1 (Suc (Suc (Suc 0)))
     (initial_state ''q'', [])
   = (\<lparr>s_tools_used = [], s_tool_results = [], s_topic = ''q'', s_summary = JStr ''draft'',
        s_sources = JArr []\<rparr>, [LlmInvoked 1, LlmInvoked 2, LlmInvoked 3])"
  by (simp add: demo_eval)

theorem research_loop_iteration_cap_witness:
  "(\<exists>k. k \<le> nat 3 \<and>
       rounds_of (snd (research_loop (always ''{ghost}'') demo_loads (tool_map demo_agent) ''q'' 1
                         (nat 3) (initial_state ''q'', []))) = [1..<Suc k]) \<and>
   rounds_of (snd (research_loop (always ''{ghost}'') demo_loads (tool_map demo_agent) ''q'' 1
                     (nat 3) (initial_state ''q'', []))) = [1, 2, 3]"
proof -
  have n: "nat 3 = Suc (Suc (Suc 0))" by simp
  have "rounds_of (snd (research_loop (always ''{ghost}'') demo_loads (tool_map demo_agent) ''q'' 1
                     (nat 3) (initial_state ''q'', []))) = [1, 2, 3]"
    unfolding n ghost_run by simp
  with research_loop_iteration_cap [of 3 "always ''{ghost}''" demo_loads "tool_map demo_agent" "''q''"]
  show ?thesis by simp
qed

text \<open>
  Claim C2, as the code has it. In every session and after every round, the names in
  \<^verbatim>\<open>tools_used\<close> are pairwise distinct and the keys of \<^verbatim>\<open>tool_results\<close> are exactly
  the names in \<^verbatim>\<open>tools_used\<close>: the invariant holds of the initial state, every round
  keeps it, and so it holds after any number of rounds. A tool is recorded when its
  invocation returns and is never invoked again after that, so a registered tool none of
  whose invocations raised has been invoked at most once, however many rounds ask for it.
  (A tool whose \<^verbatim>\<open>run\<close> raises is not recorded; see the counterexample.)
\<close>

theorem tools_used_invariant:
  "session_inv (initial_state query, []) \<and>
   (session_inv sl \<longrightarrow> session_inv (snd (round_body llm loads tm query i sl))) \<and>
   session_inv (research_loop llm loads tm query 1 n (initial_state query, [])) \<and>
   (session_inv (st, log) \<longrightarrow>
      distinct (s_tools_used st) \<and>
      fst ` set (s_tool_results st) = set (s_tools_used st) \<and>
      (name \<notin> set (raised_names log) \<longrightarrow> count_list (invoked_names log) name \<le> 1))"
proof (intro conjI impI)
  show "session_inv (initial_state query, [])" by (rule session_inv_initial)
  show "session_inv (snd (round_body llm loads tm query i sl))" if "session_inv sl"
    using that by (rule round_body_inv)
  show "session_inv (research_loop llm loads tm query 1 n (initial_state query, []))"
    by (rule research_loop_inv [OF session_inv_initial])
  show "distinct (s_tools_used st)" if "session_inv (st, log)"
    using that by (auto simp add: session_inv_def)
  show "fst ` set (s_tool_results st) = set (s_tools_used st)" if "session_inv (st, log)"
    using that by (rule session_inv_keys)
  show "count_list (invoked_names log) name \<le> 1"
    if "session_inv (st, log)" "name \<notin> set (raised_names log)"
  proof -
    from that(1) have "never_reinvoked log" by (auto simp add: session_inv_def)
    from never_reinvoked_count [OF this that(2)] show ?thesis .
  qed
qed

theorem tools_used_invariant_witness:
  "session_inv (research_loop (scripted [LlmText ''{both}'', LlmText ''{both}'', LlmText ''{final}''])
     demo_loads (tool_map demo_agent) ''q'' 1 4 (initial_state ''q'', [])) \<and>
   s_tools_used (fst (research_loop (scripted [LlmText ''{both}'', LlmText ''{both}'', LlmText ''{final}''])
     demo_loads (tool_map demo_agent) ''q'' 1 4 (initial_state ''q'', [])))
     = [''search_tool'', ''wiki_tool''] \<and>
   count_list (invoked_names (snd (research_loop
     (scripted [LlmText ''{both}'', LlmText ''{both}'', LlmText ''{final}''])
     demo_loads (tool_map demo_agent) ''q'' 1 4 (initial_state ''q'', [])))) ''search_tool'' \<le> 1"
proof -
  let ?llm = "scripted [LlmText ''{both}'', LlmText ''{both}'', LlmText ''{final}'']"
  let ?run = "research_loop ?llm demo_loads (tool_map demo_agent) ''q'' 1 4 (initial_state ''q'', [])"
  have n: "(4::nat) = Suc (Suc (Suc (Suc 0)))" by simp
  note t = tools_used_invariant [of "''q''" _ ?llm demo_loads "tool_map demo_agent" _ 4
                                    "fst ?run" "snd ?run" "''search_tool''"]
  from t have inv: "session_inv ?run" by simp
  have nr: "''search_tool'' \<notin> set (raised_names (snd ?run))"
    unfolding n both_run by simp
  from t inv nr have "count_list (invoked_names (snd ?run)) ''search_tool'' \<le> 1" by simp
  moreover have "s_tools_used (fst ?run) = [''search_tool'', ''wiki_tool'']"
    unfolding n both_run by simp
  ultimately show ?thesis using inv by simp
qed

text \<open>
  The claim as stated fails for a registered tool whose \<^verbatim>\<open>run\<close> raises: the exception
  is caught by the round's \<^verbatim>\<open>except\<close>, nothing is recorded, and the next round that asks
  for the tool invokes it again.
\<close>

theorem raising_tool_invoked_twice:
  "tool_map demo_agent ''flaky_tool'' = Some flaky_tool \<and>
   invoked_names (snd (research_loop (always ''{flaky}'') demo_loads (tool_map demo_agent) ''q'' 1 2
                         (initial_state ''q'', []))) = [''flaky_tool'', ''flaky_tool'']"
proof -
  have n: "(2::nat) = Suc (Suc 0)" by simp
  show ?thesis unfolding n flaky_run by (simp add: demo_agent_def add_tool_def)
qed

text \<open>
  Claim C3. A round leaves the loop with \<^verbatim>\<open>break\<close> exactly when its reply parses to a
  dict, the plan asks for no tools (its \<^verbatim>\<open>"tools_used"\<close> is absent or falsy), the summary
  of the session after the plan is applied is not empty, and at least two distinct tools
  have been used in the session; the names in \<^verbatim>\<open>tools_used\<close> are distinct in every
  session, by C2. The loop ends with the state of a round that converges and runs the next
  round after any other. In particular a plan with a summary and no tools in round 1,
  when no tool has been used, does not stop the loop: round 2 runs whenever two rounds are
  allowed.
\<close>

theorem convergence_condition:
  "(distinct (s_tools_used st) \<longrightarrow>
      (fst (round_body llm loads tm query i (st, log)) = Converged \<longleftrightarrow>
         (\<exists>reply plan. llm i st = LlmText reply \<and>
            loads (extract_json reply) = Some (JObj plan) \<and>
            \<not> truthy (dict_get plan ''tools_used'' (JArr [])) \<and>
            truthy (dict_get plan ''summary'' (s_summary st)) \<and>
            2 \<le> card (set (s_tools_used st))))) \<and>
   research_loop llm loads tm query i (Suc n) sl
     = (if fst (round_body llm loads tm query i sl) = Converged
        then snd (round_body llm loads tm query i sl)
        else research_loop llm loads tm query (Suc i) n (snd (round_body llm loads tm query i sl))) \<and>
   (llm 1 (initial_state query) = LlmText reply \<and>
    loads (extract_json reply) = Some (JObj plan) \<and>
    truthy (dict_get plan ''summary'' (JStr [])) \<and>
    \<not> truthy (dict_get plan ''tools_used'' (JArr [])) \<longrightarrow>
      fst (round_body llm loads tm query 1 (initial_state query, [])) \<noteq> Converged \<and>
      2 \<in> set (rounds_of (snd (research_loop llm loads tm query 1 (Suc (Suc n))
                                   (initial_state query, [])))))"
proof (intro conjI impI)
  assume "distinct (s_tools_used st)"
  then have "card (set (s_tools_used st)) = length (s_tools_used st)"
    by (rule distinct_card)
  then show "fst (round_body llm loads tm query i (st, log)) = Converged \<longleftrightarrow>
         (\<exists>reply plan. llm i st = LlmText reply \<and>
            loads (extract_json reply) = Some (JObj plan) \<and>
            \<not> truthy (dict_get plan ''tools_used'' (JArr [])) \<and>
            truthy (dict_get plan ''summary'' (s_summary st)) \<and>
            2 \<le> card (set (s_tools_used st)))"
    by (simp add: round_body_converged)
next
  show "research_loop llm loads tm query i (Suc n) sl
     = (if fst (round_body llm loads tm query i sl) = Converged
        then snd (round_body llm loads tm query i sl)
        else research_loop llm loads tm query (Suc i) n (snd (round_body llm loads tm query i sl)))"
    by (rule research_loop_step)
next
  have nc: "fst (round_body llm loads tm query 1 (initial_state query, [])) \<noteq> Converged"
    by (simp add: round_body_converged initial_state_def)
  then show "fst (round_body llm loads tm query 1 (initial_state query, [])) \<noteq> Converged" .
  have e: "research_loop llm loads tm query 1 (Suc (Suc n)) (initial_state query, [])
          = research_loop llm loads tm query (Suc 1) (Suc n)
              (snd (round_body llm loads tm query 1 (initial_state query, [])))"
    using nc by (subst research_loop_step) simp
  have "Suc 1 \<in> set (rounds_of (snd (research_loop llm loads tm query (Suc 1) (Suc n)
              (snd (round_body llm loads tm query 1 (initial_state query, []))))))"
    by (rule research_loop_runs_first)
  then show "2 \<in> set (rounds_of (snd (research_loop llm loads tm query 1 (Suc (Suc n))
                                   (initial_state query, []))))"
    unfolding e Suc_1 .
qed

theorem convergence_condition_witness:
  "fst (round_body (always ''{X}'') demo_loads (tool_map demo_agent) ''q'' 1
          (initial_state ''q'', [])) \<noteq> Converged \<and>
   2 \<in> set (rounds_of (snd (research_loop (always ''{X}'') demo_loads (tool_map demo_agent) ''q''
                               1 (Suc (Suc 0)) (initial_state ''q'', [])))) \<and>
   fst (round_body (always ''{final}'') demo_loads (tool_map demo_agent) ''q'' 3
          (\<lparr>s_tools_used = [''search_tool'', ''wiki_tool''],
            s_tool_results = [(''search_tool'', ''Search error: timeout''),
                              (''wiki_tool'', ''Wikipedia: results'')],
            s_topic = ''q'', s_summary = JStr [], s_sources = JArr []\<rparr>, [])) = Converged"
proof -
  let ?tm = "tool_map demo_agent"
  let ?two = "\<lparr>s_tools_used = [''search_tool'', ''wiki_tool''],
            s_tool_results = [(''search_tool'', ''Search error: timeout''),
                              (''wiki_tool'', ''Wikipedia: results'')],
            s_topic = ''q'', s_summary = JStr [], s_sources = JArr []\<rparr>"
  let ?planX = "[(''summary'', JStr ''X''), (''sources'', JArr []), (''tools_used'', JArr [])]"
  have a: "always ''{X}'' 1 (initial_state ''q'') = LlmText ''{X}'' \<and>
    demo_loads (extract_json ''{X}'') = Some (JObj ?planX) \<and>
    truthy (dict_get ?planX ''summary'' (JStr [])) \<and>
    \<not> truthy (dict_get ?planX ''tools_used'' (JArr []))"
    by (simp add: always_def demo_extract demo_loads_def dict_get_def)
  note A = convergence_condition
             [where llm = "always ''{X}''" and loads = demo_loads and tm = ?tm and query = "''q''"
                and reply = "''{X}''" and plan = ?planX and n = 0,
              THEN conjunct2, THEN conjunct2, THEN mp, OF a]
  have d: "distinct (s_tools_used ?two)" by simp
  note B = convergence_condition
             [where llm = "always ''{final}''" and loads = demo_loads and tm = ?tm
                and query = "''q''" and i = 3 and st = ?two and log = "[]",
              THEN conjunct1, THEN mp, OF d]
  have "fst (round_body (always ''{final}'') demo_loads ?tm ''q'' 3 (?two, [])) = Converged"
    unfolding B by (simp add: always_def demo_extract demo_loads_def dict_get_def)
  with A show ?thesis by simp
qed

text \<open>
  Claim C4, as the code has it. No failure inside a round aborts the call: whatever the
  model call, \<^verbatim>\<open>json.loads\<close> and the tools do in each round (raise, return text that does
  not parse, return a value that is no dict), \<^verbatim>\<open>research\<close> reaches the end of the loop,
  for every query, every \<^verbatim>\<open>max_iterations\<close> and every registry of tools that return
  text or raise. It then returns a result with its four fields exactly when the summary
  and the sources left in the session state are of the types the result accepts, or empty:
  the topic is the query, the summary and the sources are those of the state, with the
  fixed sentence for an empty summary and the empty list for empty sources, and the tools
  are those of the state. When the summary or the sources are of another type, the
  result's constructor raises \<^verbatim>\<open>ValidationError\<close> after the loop.
\<close>

theorem research_returns_result:
  "(summary_ok (s_summary (final_state llm loads agent query max_iterations)) \<and>
    sources_ok (s_sources (final_state llm loads agent query max_iterations)) \<longrightarrow>
      (\<exists>response agent'.
          research llm loads agent query max_iterations = Inr (response, agent') \<and>
          topic response = query \<and>
          JStr (summary response)
            = py_or (s_summary (final_state llm loads agent query max_iterations))
                (JStr ''Unable to complete research'') \<and>
          JArr (map JStr (sources response))
            = py_or (s_sources (final_state llm loads agent query max_iterations)) (JArr []) \<and>
          tools_used response = s_tools_used (final_state llm loads agent query max_iterations) \<and>
          (\<not> truthy (s_summary (final_state llm loads agent query max_iterations)) \<longrightarrow>
             summary response = ''Unable to complete research''))) \<and>
   (\<not> (summary_ok (s_summary (final_state llm loads agent query max_iterations)) \<and>
       sources_ok (s_sources (final_state llm loads agent query max_iterations))) \<longrightarrow>
      research llm loads agent query max_iterations = Inl ValidationError)"
proof (intro conjI impI)
  let ?run = "research_loop llm loads (tool_map agent) query 1 (nat max_iterations)
                (initial_state query, [])"
  let ?st = "final_state llm loads agent query max_iterations"
  have st: "?run = (?st, snd ?run)" by (simp add: final_state_def)
  have tp: "s_topic ?st = query"
    using research_loop_topic [of llm loads "tool_map agent" query 1 "nat max_iterations"
                                  "(initial_state query, [])"]
    by (simp add: final_state_def initial_state_def)
  {
    assume ok: "summary_ok (s_summary ?st) \<and> sources_ok (s_sources ?st)"
    then obtain s l where
      s: "validate_str (py_or (s_summary ?st) (JStr ''Unable to complete research'')) = Some s"
      and e: "\<not> truthy (s_summary ?st) \<longrightarrow> s = ''Unable to complete research''"
      and l: "validate_str_list (py_or (s_sources ?st) (JArr [])) = Some l"
      using validate_summary [of "s_summary ?st"] validate_sources [of "s_sources ?st"] by blast
    have "research llm loads agent query max_iterations
            = Inr (\<lparr>topic = query, summary = s, sources = l, tools_used = s_tools_used ?st\<rparr>,
                   agent\<lparr>conversation_history := conversation_history agent @
                      [\<lparr>h_query = query, h_summary = s, h_sources = l\<rparr>]\<rparr>)"
      unfolding research_def by (subst st) (simp add: new_response_def s l tp)
    with e validate_str_SomeD [OF s] validate_str_list_SomeD [OF l]
    show "\<exists>response agent'.
          research llm loads agent query max_iterations = Inr (response, agent') \<and>
          topic response = query \<and>
          JStr (summary response)
            = py_or (s_summary ?st) (JStr ''Unable to complete research'') \<and>
          JArr (map JStr (sources response)) = py_or (s_sources ?st) (JArr []) \<and>
          tools_used response = s_tools_used ?st \<and>
          (\<not> truthy (s_summary ?st) \<longrightarrow> summary response = ''Unable to complete research'')"
      by simp
  }
  {
    assume n: "\<not> (summary_ok (s_summary ?st) \<and> sources_ok (s_sources ?st))"
    have "validate_str (py_or (s_summary ?st) (JStr ''Unable to complete research'')) = None
               \<or> validate_str_list (py_or (s_sources ?st) (JArr [])) = None"
    proof (cases "summary_ok (s_summary ?st)")
      case False
      then show ?thesis by (simp add: not_summary_ok)
    next
      case True
      with n have "\<not> sources_ok (s_sources ?st)" by simp
      then show ?thesis by (simp add: not_sources_ok)
    qed
    then have "new_response (s_topic ?st)
                 (py_or (s_summary ?st) (JStr ''Unable to complete research''))
                 (py_or (s_sources ?st) (JArr [])) (s_tools_used ?st) = Inl ValidationError"
      by (auto simp: new_response_def split: option.splits)
    then show "research llm loads agent query max_iterations = Inl ValidationError"
      unfolding research_def by (subst st) simp
  }
qed


theorem research_returns_result_witness:
  "research (scripted [LlmRaises, LlmText ''garbage'', LlmText ''{flaky}'']) demo_loads
     demo_agent ''q'' 3
   = Inr (\<lparr>topic = ''q'', summary = ''Unable to complete research'', sources = [],
            tools_used = []\<rparr>,
          demo_agent\<lparr>conversation_history :=
            [\<lparr>h_query = ''q'', h_summary = ''Unable to complete research'', h_sources = []\<rparr>]\<rparr>) \<and>
   research (always ''{badsrc}'') untyped_loads demo_agent ''q'' 1 = Inl ValidationError"
proof -
  let ?llm = "scripted [LlmRaises, LlmText ''garbage'', LlmText ''{flaky}'']"
  have n: "nat 3 = Suc (Suc (Suc 0))" by simp
  have fs: "final_state ?llm demo_loads demo_agent ''q'' 3
              = \<lparr>s_tools_used = [], s_tool_results = [], s_topic = ''q'', s_summary = JStr [],
                  s_sources = JArr []\<rparr>"
    unfolding final_state_def n rough_run by simp
  have ok: "summary_ok (s_summary (final_state ?llm demo_loads demo_agent ''q'' 3)) \<and>
            sources_ok (s_sources (final_state ?llm demo_loads demo_agent ''q'' 3))"
    unfolding fs by (simp add: summary_ok_def sources_ok_def)
  from research_returns_result
         [where loads = demo_loads and llm = ?llm and agent = demo_agent and query = "''q''"
            and max_iterations = 3, THEN conjunct1, THEN mp, OF ok]
  obtain response agent' where
    r: "research ?llm demo_loads demo_agent ''q'' 3 = Inr (response, agent')"
    and "topic response = ''q''"
    and "tools_used response = []"
    and "summary response = ''Unable to complete research''"
    unfolding fs by auto
  have 1: "research ?llm demo_loads demo_agent ''q'' 3
   = Inr (\<lparr>topic = ''q'', summary = ''Unable to complete research'', sources = [],
            tools_used = []\<rparr>,
          demo_agent\<lparr>conversation_history :=
            [\<lparr>h_query = ''q'', h_summary = ''Unable to complete research'', h_sources = []\<rparr>]\<rparr>)"
    unfolding research_def n rough_run
    by (simp add: new_response_def py_or_def demo_agent_def add_tool_def)
  have fb: "final_state (always ''{badsrc}'') untyped_loads demo_agent ''q'' 1
              = \<lparr>s_tools_used = [], s_tool_results = [], s_topic = ''q'', s_summary = JStr ''ok'',
                  s_sources = JStr ''wikipedia''\<rparr>"
    by (simp add: final_state_def demo_eval)
  have bad: "\<not> (summary_ok (s_summary (final_state (always ''{badsrc}'') untyped_loads
                                   demo_agent ''q'' 1)) \<and>
                sources_ok (s_sources (final_state (always ''{badsrc}'') untyped_loads
                                   demo_agent ''q'' 1)))"
    unfolding fb by (simp add: sources_ok_def)
  from research_returns_result
         [where loads = untyped_loads and llm = "always ''{badsrc}''" and agent = demo_agent
            and query = "''q''" and max_iterations = 1, THEN conjunct2, THEN mp, OF bad]
  have 2: "research (always ''{badsrc}'') untyped_loads demo_agent ''q'' 1 = Inl ValidationError" .
  from 1 2 show ?thesis by simp
qed

text \<open>
  The claim as stated fails: a reply that parses to a dict whose sources are a string is
  no failure of a round, the state takes the value as it is, and the result's constructor
  refuses it after the loop.
\<close>

theorem untyped_sources_abort_research:
  "untyped_loads (extract_json ''{badsrc}'')
     = Some (JObj [(''summary'', JStr ''ok''), (''sources'', JStr ''wikipedia''),
                   (''tools_used'', JArr [])]) \<and>
   research (always ''{badsrc}'') untyped_loads demo_agent ''q'' 5 = Inl ValidationError"
proof -
  have n: "nat 5 = Suc (Suc (Suc (Suc (Suc 0))))" by simp
  have "research (always ''{badsrc}'') untyped_loads demo_agent ''q'' 5 = Inl ValidationError"
    unfolding research_def n badsrc_run
    by (simp add: new_response_def py_or_def)
  then show ?thesis by (simp add: demo_extract untyped_loads_def)
qed

text \<open>
  Claim C5, as the code has it. When an invocation of a registered tool returns text, the
  text is that tool's entry in \<^verbatim>\<open>tool_results\<close> at the end of the session, the tool
  stands in \<^verbatim>\<open>tools_used\<close> exactly once, and no later round invokes the tool again,
  whatever it would do. The three tools of \<^verbatim>\<open>_init_tools\<close> report a failure of their
  service in this way: they return the failure's description after a fixed prefix
  (\<^verbatim>\<open>Search error: \<close>, \<^verbatim>\<open>Wikipedia error: \<close>, \<^verbatim>\<open>Save error: \<close>), so a built-in tool
  that fails on every invocation is recorded once with that text and never retried.
\<close>

theorem returned_failure_recorded_once:
  "(research_loop llm loads tm query 1 n (initial_state query, []) = (st, log) \<and>
    log = before @ ToolInvoked i name (Returned result) # after \<longrightarrow>
      map_of (s_tool_results st) name = Some result \<and>
      count_list (s_tools_used st) name = 1 \<and>
      name \<notin> set (invoked_names after)) \<and>
   (duckduckgo i query = Inl e \<longrightarrow>
      search_tool duckduckgo i query = Returned (''Search error: '' @ e)) \<and>
   (wikipedia i query = Inl e \<longrightarrow>
      wiki_tool wikipedia i query = Returned (''Wikipedia error: '' @ e)) \<and>
   (append_file i (query @ [CHR 0x0A]) = Inl e \<longrightarrow>
      save_tool append_file i query = Returned (''Save error: '' @ e))"
proof (intro conjI impI)
  assume h: "research_loop llm loads tm query 1 n (initial_state query, []) = (st, log) \<and>
    log = before @ ToolInvoked i name (Returned result) # after"
  then have run: "research_loop llm loads tm query 1 n (initial_state query, []) = (st, log)"
    and log: "log = before @ ToolInvoked i name (Returned result) # after"
    by (rule conjunct1, rule conjunct2)
  from research_loop_inv [OF session_inv_initial, of llm loads tm query 1 n query] run
  have inv: "session_inv (st, log)" by simp
  then have res: "s_tool_results st = returned_pairs log"
    and used: "s_tools_used st = map fst (returned_pairs log)"
    and dist: "distinct (s_tools_used st)"
    and nr: "never_reinvoked log"
    by (auto simp: session_inv_def)
  have mem: "(name, result) \<in> set (returned_pairs log)"
    by (simp add: log returned_pairs_append)
  from dist used have "distinct (map fst (returned_pairs log))" by simp
  from map_of_is_SomeI [OF this mem] res
  show "map_of (s_tool_results st) name = Some result" by simp
  from mem used have "name \<in> set (s_tools_used st)" by force
  with dist show "count_list (s_tools_used st) name = 1" by (rule distinct_count_list)
  from nr show "name \<notin> set (invoked_names after)"
    by (simp add: log never_reinvoked_append)
next
  assume "duckduckgo i query = Inl e"
  then show "search_tool duckduckgo i query = Returned (''Search error: '' @ e)"
    by (simp add: search_tool_def)
next
  assume "wikipedia i query = Inl e"
  then show "wiki_tool wikipedia i query = Returned (''Wikipedia error: '' @ e)"
    by (simp add: wiki_tool_def)
next
  assume "append_file i (query @ [CHR 0x0A]) = Inl e"
  then show "save_tool append_file i query = Returned (''Save error: '' @ e)"
    by (simp add: save_tool_def)
qed

theorem returned_failure_recorded_once_witness:
  "down_service 1 ''q'' = Inl ''timeout'' \<and>
   search_tool down_service 1 ''q'' = Returned (''Search error: '' @ ''timeout'') \<and>
   map_of (s_tool_results (fst (research_loop
     (scripted [LlmText ''{both}'', LlmText ''{both}'', LlmText ''{final}''])
     demo_loads (tool_map demo_agent) ''q'' 1 4 (initial_state ''q'', [])))) ''search_tool''
     = Some ''Search error: timeout'' \<and>
   count_list (s_tools_used (fst (research_loop
     (scripted [LlmText ''{both}'', LlmText ''{both}'', LlmText ''{final}''])
     demo_loads (tool_map demo_agent) ''q'' 1 4 (initial_state ''q'', [])))) ''search_tool'' = 1 \<and>
   ''search_tool'' \<notin> set (invoked_names
     [ToolInvoked 1 ''wiki_tool'' (Returned ''Wikipedia: results''), LlmInvoked 2, LlmInvoked 3])"
proof -
  let ?llm = "scripted [LlmText ''{both}'', LlmText ''{both}'', LlmText ''{final}'']"
  let ?run = "research_loop ?llm demo_loads (tool_map demo_agent) ''q'' 1 4 (initial_state ''q'', [])"
  let ?after = "[ToolInvoked 1 ''wiki_tool'' (Returned ''Wikipedia: results''),
                 LlmInvoked 2, LlmInvoked 3]"
  have n: "(4::nat) = Suc (Suc (Suc (Suc 0)))" by simp
  have d: "down_service 1 ''q'' = Inl ''timeout''" by (simp add: down_service_def)
  have run: "?run = (fst ?run, snd ?run)" by simp
  have log: "snd ?run = [LlmInvoked 1]
               @ ToolInvoked 1 ''search_tool'' (Returned ''Search error: timeout'') # ?after"
    unfolding n both_run by simp
  note t = returned_failure_recorded_once
             [of ?llm demo_loads "tool_map demo_agent" "''q''" 4 "fst ?run" "snd ?run"
                 "[LlmInvoked 1]" 1 "''search_tool''" "''Search error: timeout''" ?after
                 down_service "''timeout''"]
  from t run log have
    "map_of (s_tool_results (fst ?run)) ''search_tool'' = Some ''Search error: timeout'' \<and>
     count_list (s_tools_used (fst ?run)) ''search_tool'' = 1 \<and>
     ''search_tool'' \<notin> set (invoked_names ?after)"
    by blast
  moreover from t d
  have "search_tool down_service 1 ''q'' = Returned (''Search error: '' @ ''timeout'')"
    by blast
  ultimately show ?thesis using d by blast
qed

text \<open>
  The claim as stated fails for a registered tool whose failure leaves \<^verbatim>\<open>run\<close> as an
  exception: nothing is stored for it, it is not appended to \<^verbatim>\<open>tools_used\<close>, and round
  2 invokes it again.
\<close>

theorem raising_tool_not_recorded:
  "tool_map demo_agent ''flaky_tool'' = Some flaky_tool \<and>
   flaky_tool 1 ''q'' = Raised ''boom'' \<and>
   research_loop (always ''{flaky}'') demo_loads (tool_map demo_agent) ''q'' 1 2
     (initial_state ''q'', [])
   = (\<lparr>s_tools_used = [], s_tool_results = [], s_topic = ''q'', s_summary = JStr [],
        s_sources = JArr []\<rparr>,
      [LlmInvoked 1, ToolInvoked 1 ''flaky_tool'' (Raised ''boom''),
       LlmInvoked 2, ToolInvoked 2 ''flaky_tool'' (Raised ''boom'')])"
proof -
  have n: "(2::nat) = Suc (Suc 0)" by simp
  show ?thesis unfolding n flaky_run
    by (simp add: demo_agent_def add_tool_def flaky_tool_def)
qed

text \<open>
  Claim C6, as the code has it. In every round whose reply parses to a dict, however the
  round ends, the summary of the session becomes the value of the plan's \<^verbatim>\<open>"summary"\<close>
  key and the sources the value of its \<^verbatim>\<open>"sources"\<close> key, whatever these values are and
  with no merging; a key that the plan does not have leaves the field of the session as it
  was before the round.
\<close>

theorem plan_overwrites_present_fields:
  "llm i st = LlmText reply \<and> loads (extract_json reply) = Some (JObj plan) \<and>
   round_body llm loads tm query i (st, log) = (r, st', log') \<longrightarrow>
     s_summary st' = (case map_of plan ''summary'' of Some v \<Rightarrow> v | None \<Rightarrow> s_summary st) \<and>
     s_sources st' = (case map_of plan ''sources'' of Some v \<Rightarrow> v | None \<Rightarrow> s_sources st)"
proof
  assume h: "llm i st = LlmText reply \<and> loads (extract_json reply) = Some (JObj plan) \<and>
   round_body llm loads tm query i (st, log) = (r, st', log')"
  then have a: "llm i st = LlmText reply" and b: "loads (extract_json reply) = Some (JObj plan)"
    and c: "round_body llm loads tm query i (st, log) = (r, st', log')"
    by simp_all
  from c have "run_plan tm query i plan (st, log @ [LlmInvoked i]) = (r, st', log')"
    by (simp add: round_body_def a b)
  from run_plan_frame [OF this]
  show "s_summary st' = (case map_of plan ''summary'' of Some v \<Rightarrow> v | None \<Rightarrow> s_summary st) \<and>
     s_sources st' = (case map_of plan ''sources'' of Some v \<Rightarrow> v | None \<Rightarrow> s_sources st)"
    by (simp add: dict_get_def)
qed

theorem plan_overwrites_present_fields_witness:
  "always ''{X}'' 1 (initial_state ''q'') = LlmText ''{X}'' \<and>
   demo_loads (extract_json ''{X}'')
     = Some (JObj [(''summary'', JStr ''X''), (''sources'', JArr []), (''tools_used'', JArr [])]) \<and>
   s_summary (fst (snd (round_body (always ''{X}'') demo_loads (tool_map demo_agent) ''q'' 1
                          (initial_state ''q'', [])))) = JStr ''X'' \<and>
   s_sources (fst (snd (round_body (always ''{X}'') demo_loads (tool_map demo_agent) ''q'' 1
                          (initial_state ''q'', [])))) = JArr []"
proof -
  let ?plan = "[(''summary'', JStr ''X''), (''sources'', JArr []), (''tools_used'', JArr [])]"
  let ?st' = "\<lparr>s_tools_used = [], s_tool_results = [], s_topic = ''q'', s_summary = JStr ''X'',
        s_sources = JArr []\<rparr>"
  have a: "always ''{X}'' 1 (initial_state ''q'') = LlmText ''{X}''" by (simp add: always_def)
  have b: "demo_loads (extract_json ''{X}'') = Some (JObj ?plan)"
    by (simp add: demo_extract demo_loads_def)
  from plan_overwrites_present_fields
         [of "always ''{X}''" 1 "initial_state ''q''" "''{X}''" demo_loads ?plan
             "tool_map demo_agent" "''q''" "[]" Completed ?st' "[LlmInvoked 1]"]
       a b x_round
  have "s_summary ?st' = JStr ''X'' \<and> s_sources ?st' = JArr []" by simp
  with a b show ?thesis unfolding x_round by simp
qed

text \<open>
  The overwrite is not unconditional: the reply of round 2 parses to a plan that only
  names tools, and the summary written in round 1 is still there after round 2.
\<close>

theorem plan_without_summary_keeps_draft:
  "scripted [LlmText ''{X}'', LlmText ''{both}''] 2
     \<lparr>s_tools_used = [], s_tool_results = [], s_topic = ''q'', s_summary = JStr ''X'',
       s_sources = JArr []\<rparr> = LlmText ''{both}'' \<and>
   demo_loads (extract_json ''{both}'')
     = Some (JObj [(''tools_used'', JArr [JStr ''search_tool'', JStr ''wiki_tool''])]) \<and>
   s_summary (fst (research_loop (scripted [LlmText ''{X}'', LlmText ''{both}'']) demo_loads
                     (tool_map demo_agent) ''q'' 1 2 (initial_state ''q'', []))) = JStr ''X''"
proof -
  have n: "(2::nat) = Suc (Suc 0)" by simp
  show ?thesis unfolding n x_both_run
    by (simp add: scripted_def demo_extract demo_loads_def)
qed

text \<open>
  Claim C7, as the code has it. The extractor is an ordered fallback in which the first
  match wins. A fenced block is a fence, an optional \<^verbatim>\<open>json\<close> label, a payload in
  braces and a closing fence, white space allowed around the payload. When the input holds
  a fenced block, the extractor returns exactly the payload of the first such block: the
  one that no fenced block precedes and that is the shortest at its place, since the lazy
  star of line 88 ends the payload at the first closing brace that white space and a fence
  follow. When the input holds no fenced block, the extractor returns the greedy span from
  the first opening brace to the last closing brace. When the input holds no brace, the
  extractor returns the input unchanged. In every case in which the input holds a fenced
  block, the result is the payload of a fenced block of the input that starts no later than
  that block and, when it starts at the same place, is no longer.
\<close>

theorem extract_json_ordered_fallback:
  "(fenced_block pre payload post inp \<and>
      (\<forall>pre' payload' post'. fenced_block pre' payload' post' inp \<longrightarrow>
          length pre < length pre' \<or>
          (length pre' = length pre \<and> length payload \<le> length payload'))
      \<longrightarrow> extract_json inp = payload)
   \<and> (\<not> (\<exists>pre payload post. fenced_block pre payload post inp) \<and>
      inp = a @ ''{'' @ b @ ''}'' @ c \<and> CHR ''{'' \<notin> set a \<and> CHR ''}'' \<notin> set c
      \<longrightarrow> extract_json inp = ''{'' @ b @ ''}'')
   \<and> (CHR ''{'' \<notin> set inp \<and> CHR ''}'' \<notin> set inp \<longrightarrow> extract_json inp = inp)
   \<and> (fenced_block pre payload post inp \<longrightarrow>
        (\<exists>pre' post'. fenced_block pre' (extract_json inp) post' inp \<and>
           (length pre' < length pre \<or>
            (length pre' = length pre \<and> length (extract_json inp) \<le> length payload))))"
proof (intro conjI impI)
  assume h: "fenced_block pre payload post inp \<and>
      (\<forall>pre' payload' post'. fenced_block pre' payload' post' inp \<longrightarrow>
          length pre < length pre' \<or>
          (length pre' = length pre \<and> length payload \<le> length payload'))"
  show "extract_json inp = payload"
  proof (rule extract_json_first_block)
    from h show "fenced_block pre payload post inp" by (rule conjunct1)
  next
    fix pre' payload' post'
    assume "fenced_block pre' payload' post' inp"
    with h [THEN conjunct2, rule_format, of pre' payload' post']
    show "length pre < length pre' \<or>
          (length pre' = length pre \<and> length payload \<le> length payload')" .
  qed
next
  assume h: "\<not> (\<exists>pre payload post. fenced_block pre payload post inp) \<and>
      inp = a @ ''{'' @ b @ ''}'' @ c \<and> CHR ''{'' \<notin> set a \<and> CHR ''}'' \<notin> set c"
  from h have nof: "\<not> (\<exists>pre payload post. fenced_block pre payload post inp)"
    by (rule conjunct1)
  from h have eq: "inp = a @ ''{'' @ b @ ''}'' @ c"
    by (rule conjunct2 [THEN conjunct1])
  from h have na: "CHR ''{'' \<notin> set a"
    by (rule conjunct2 [THEN conjunct2, THEN conjunct1])
  from h have nc: "CHR ''}'' \<notin> set c"
    by (rule conjunct2 [THEN conjunct2, THEN conjunct2])
  from nof have f: "re_search fenced_pattern inp = None"
    by (rule re_search_fenced_None)
  from re_search_brace [OF na nc, of b]
  have g: "re_search brace_pattern inp = Some (''{'' @ b @ ''}'' @ c, length b + 2, 0, 0)"
    unfolding eq .
  show "extract_json inp = ''{'' @ b @ ''}''"
    unfolding extract_json_def f g by (simp add: group0_def)
next
  assume h: "CHR ''{'' \<notin> set inp \<and> CHR ''}'' \<notin> set inp"
  then have no: "CHR ''{'' \<notin> set inp" by (rule conjunct1)
  have "\<not> (\<exists>pre payload post. fenced_block pre payload post inp)"
  proof
    assume "\<exists>pre payload post. fenced_block pre payload post inp"
    then obtain pre payload post where "fenced_block pre payload post inp" by blast
    from fenced_block_has_brace [OF this] no show False by contradiction
  qed
  then have f: "re_search fenced_pattern inp = None"
    by (rule re_search_fenced_None)
  from no have g: "re_search brace_pattern inp = None"
    by (rule re_search_brace_None)
  show "extract_json inp = inp"
    unfolding extract_json_def f g by simp
next
  assume "fenced_block pre payload post inp"
  then show "\<exists>pre' post'. fenced_block pre' (extract_json inp) post' inp \<and>
           (length pre' < length pre \<or>
            (length pre' = length pre \<and> length (extract_json inp) \<le> length payload))"
    by (rule extract_json_some_block)
qed

theorem extract_json_ordered_fallback_witness:
  "fenced_block ''Sure: '' ''{a: {b}}'' '' done'' ''Sure: ```json {a: {b}} ``` done'' \<and>
   extract_json ''Sure: ```json {a: {b}} ``` done'' = ''{a: {b}}'' \<and>
   extract_json ''x {a} y {b} z'' = ''{a} y {b}'' \<and>
   extract_json ''plain text'' = ''plain text''"
proof -
  let ?t = "''Sure: ```json {a: {b}} ``` done''"
  have eq: "?t = ''Sure: '' @ fence @ ''json'' @ '' '' @ ''{'' @ ''a: {b}'' @ ''}'' @ '' ''
                   @ fence @ '' done''"
    by (simp add: fence_def)
  have sp: "list_all is_space '' ''" by (simp add: is_space_def)
  have blk: "fenced_block ''Sure: '' ''{a: {b}}'' '' done'' ?t"
    unfolding fenced_block_def
    apply (rule exI [of _ "''json''"])
    apply (rule exI [of _ "'' ''"])
    apply (rule exI [of _ "'' ''"])
    apply (rule exI [of _ "''a: {b}''"])
    apply (simp add: fence_def is_space_def)
    done
  have first: "\<forall>pre' payload' post'. fenced_block pre' payload' post' ?t \<longrightarrow>
      length ''Sure: '' < length pre' \<or>
      (length pre' = length ''Sure: '' \<and> length ''{a: {b}}'' \<le> length payload')"
  proof (intro allI impI)
    fix pre' payload' post'
    assume b': "fenced_block pre' payload' post' ?t"
    have "length ''Sure: '' < length pre' \<or>
      (length pre' = length ''Sure: '' \<and> length (''{'' @ ''a: {b}'' @ ''}'') \<le> length payload')"
      by (rule first_block_simple [OF eq _ sp sp _ _ b']) simp_all
    then show "length ''Sure: '' < length pre' \<or>
      (length pre' = length ''Sure: '' \<and> length ''{a: {b}}'' \<le> length payload')"
      by simp
  qed
  have 1: "extract_json ?t = ''{a: {b}}''"
    by (rule extract_json_ordered_fallback [THEN conjunct1, THEN mp, OF conjI [OF blk first]])
  have nof: "\<not> (\<exists>pre payload post. fenced_block pre payload post ''x {a} y {b} z'')"
  proof
    assume "\<exists>pre payload post. fenced_block pre payload post ''x {a} y {b} z''"
    then obtain pre payload post where "fenced_block pre payload post ''x {a} y {b} z''"
      by blast
    from fenced_block_has_fence [OF this] show False by simp
  qed
  have "extract_json ''x {a} y {b} z'' = ''{'' @ ''a} y {b'' @ ''}''"
    apply (rule extract_json_ordered_fallback
             [where a = "''x ''" and c = "'' z''", THEN conjunct2, THEN conjunct1, THEN mp])
    apply (simp add: nof)
    done
  then have 2: "extract_json ''x {a} y {b} z'' = ''{a} y {b}''" by simp
  have 3: "extract_json ''plain text'' = ''plain text''"
    apply (rule extract_json_ordered_fallback
             [THEN conjunct2, THEN conjunct2, THEN conjunct1, THEN mp])
    apply simp
    done
  from blk 1 2 3 show ?thesis by simp
qed

text \<open>
  Against claim C7 as it was worded, for which any fenced block gives back its inner text:
  a reply that is one fenced block around a JSON object, one of whose strings holds a
  closing brace followed by a fence. The whole object is the payload of a fenced block of
  the input, and the extractor returns the object cut at that brace, which
  \<^verbatim>\<open>json.loads\<close> then refuses.
\<close>

theorem fenced_payload_truncated:
  "fenced_block [] ''{\"s\": \"f(){} ``` \"}'' [] ''```json {\"s\": \"f(){} ``` \"} ```'' \<and>
   extract_json ''```json {\"s\": \"f(){} ``` \"} ```'' = ''{\"s\": \"f(){}'' \<and>
   extract_json ''```json {\"s\": \"f(){} ``` \"} ```'' \<noteq> ''{\"s\": \"f(){} ``` \"}''"
proof -
  let ?inp = "''```json {\"s\": \"f(){} ``` \"} ```''"
  have sp: "list_all is_space '' ''" by (simp add: is_space_def)
  have teq: "?inp = [] @ fence @ ''json'' @ '' '' @ ''{'' @ ''\"s\": \"f(){'' @ ''}'' @ '' ''
                    @ fence @ '' \"} ```''"
    by (simp add: fence_def)
  have whole: "fenced_block [] ''{\"s\": \"f(){} ``` \"}'' [] ?inp"
    unfolding fenced_block_def
    apply (rule exI [of _ "''json''"])
    apply (rule exI [of _ "'' ''"])
    apply (rule exI [of _ "'' ''"])
    apply (rule exI [of _ "''\"s\": \"f(){} ``` \"''"])
    apply (simp add: fence_def is_space_def)
    done
  have short: "fenced_block [] ''{\"s\": \"f(){}'' '' \"} ```'' ?inp"
    unfolding fenced_block_def
    apply (rule exI [of _ "''json''"])
    apply (rule exI [of _ "'' ''"])
    apply (rule exI [of _ "'' ''"])
    apply (rule exI [of _ "''\"s\": \"f(){''"])
    apply (simp add: fence_def is_space_def)
    done
  have "extract_json ?inp = ''{\"s\": \"f(){}''"
  proof (rule extract_json_first_block [OF short])
    fix pre' payload' post'
    assume b': "fenced_block pre' payload' post' ?inp"
    have "length ([]::string) < length pre' \<or>
      (length pre' = length ([]::string) \<and>
       length (''{'' @ ''\"s\": \"f(){'' @ ''}'') \<le> length payload')"
      by (rule first_block_simple [OF teq _ sp sp _ _ b']) simp_all
    then show "length ([]::string) < length pre' \<or>
      (length pre' = length ([]::string) \<and> length ''{\"s\": \"f(){}'' \<le> length payload')"
      by simp
  qed
  with whole show ?thesis by simp
qed

text \<open>
  Claim C8. In a round in which the call of the model raises, or \<^verbatim>\<open>json.loads\<close> raises
  on the extracted text, or the parsed value is no dict, the exception is caught with the
  session state exactly as it was before the round (only the model was called), and the
  loop goes on with the next round from that state.
\<close>

theorem failed_round_keeps_state:
  "(llm i st = LlmRaises \<or>
    (\<exists>reply. llm i st = LlmText reply \<and>
       (loads (extract_json reply) = None \<or>
        (\<exists>v. loads (extract_json reply) = Some v \<and> (\<forall>plan. v \<noteq> JObj plan))))) \<longrightarrow>
     (\<exists>e. round_body llm loads tm query i (st, log) = (Failed e, st, log @ [LlmInvoked i])) \<and>
     research_loop llm loads tm query i (Suc n) (st, log)
       = research_loop llm loads tm query (Suc i) n (st, log @ [LlmInvoked i])"
proof
  assume h: "llm i st = LlmRaises \<or>
    (\<exists>reply. llm i st = LlmText reply \<and>
       (loads (extract_json reply) = None \<or>
        (\<exists>v. loads (extract_json reply) = Some v \<and> (\<forall>plan. v \<noteq> JObj plan))))"
  have rb: "\<exists>e. round_body llm loads tm query i (st, log) = (Failed e, st, log @ [LlmInvoked i])"
  proof (cases "llm i st")
    case LlmRaises
    then show ?thesis by (simp add: round_body_def)
  next
    case (LlmText reply)
    with h have "loads (extract_json reply) = None \<or>
        (\<exists>v. loads (extract_json reply) = Some v \<and> (\<forall>plan. v \<noteq> JObj plan))" by simp
    then show ?thesis
    proof
      assume "loads (extract_json reply) = None"
      with LlmText show ?thesis by (simp add: round_body_def)
    next
      assume "\<exists>v. loads (extract_json reply) = Some v \<and> (\<forall>plan. v \<noteq> JObj plan)"
      then obtain v where "loads (extract_json reply) = Some v" "\<forall>plan. v \<noteq> JObj plan"
        by blast
      with LlmText show ?thesis by (cases v) (simp_all add: round_body_def)
    qed
  qed
  then obtain e where
    "round_body llm loads tm query i (st, log) = (Failed e, st, log @ [LlmInvoked i])" by blast
  then have "research_loop llm loads tm query i (Suc n) (st, log)
       = research_loop llm loads tm query (Suc i) n (st, log @ [LlmInvoked i])" by simp
  with rb show "(\<exists>e. round_body llm loads tm query i (st, log) = (Failed e, st, log @ [LlmInvoked i])) \<and>
     research_loop llm loads tm query i (Suc n) (st, log)
       = research_loop llm loads tm query (Suc i) n (st, log @ [LlmInvoked i])" by simp
qed

theorem failed_round_keeps_state_witness:
  "scripted [LlmRaises, LlmText ''garbage'', LlmText ''{list}''] 1 (initial_state ''q'') = LlmRaises \<and>
   demo_loads (extract_json ''garbage'') = None \<and>
   demo_loads (extract_json ''{list}'') = Some (JArr [JNum 1]) \<and>
   research_loop (scripted [LlmRaises, LlmText ''garbage'', LlmText ''{list}'']) demo_loads
     (tool_map demo_agent) ''q'' 1 3 (initial_state ''q'', [])
   = (initial_state ''q'', [LlmInvoked 1, LlmInvoked 2, LlmInvoked 3])"
proof -
  let ?llm = "scripted [LlmRaises, LlmText ''garbage'', LlmText ''{list}'']"
  let ?tm = "tool_map demo_agent"
  let ?st = "initial_state ''q''"
  have n: "(3::nat) = Suc (Suc (Suc 0))" by simp
  have a: "?llm 1 ?st = LlmRaises" by (simp add: scripted_def)
  have b: "?llm (Suc 1) ?st = LlmText ''garbage''" "demo_loads (extract_json ''garbage'') = None"
    by (simp_all add: scripted_def demo_extract demo_loads_def)
  have c: "?llm (Suc (Suc 1)) ?st = LlmText ''{list}''"
    "demo_loads (extract_json ''{list}'') = Some (JArr [JNum 1])"
    by (simp_all add: scripted_def demo_extract demo_loads_def)
  have 1: "research_loop ?llm demo_loads ?tm ''q'' 1 (Suc (Suc (Suc 0))) (?st, [])
             = research_loop ?llm demo_loads ?tm ''q'' (Suc 1) (Suc (Suc 0)) (?st, [] @ [LlmInvoked 1])"
    by (rule failed_round_keeps_state [THEN mp, THEN conjunct2]) (rule disjI1 [OF a])
  have 2: "research_loop ?llm demo_loads ?tm ''q'' (Suc 1) (Suc (Suc 0)) (?st, [LlmInvoked 1])
             = research_loop ?llm demo_loads ?tm ''q'' (Suc (Suc 1)) (Suc 0)
                 (?st, [LlmInvoked 1] @ [LlmInvoked (Suc 1)])"
    by (rule failed_round_keeps_state [THEN mp, THEN conjunct2]) (use b in blast)
  have 3: "research_loop ?llm demo_loads ?tm ''q'' (Suc (Suc 1)) (Suc 0)
                 (?st, [LlmInvoked 1, LlmInvoked (Suc 1)])
             = research_loop ?llm demo_loads ?tm ''q'' (Suc (Suc (Suc 1))) 0
                 (?st, [LlmInvoked 1, LlmInvoked (Suc 1)] @ [LlmInvoked (Suc (Suc 1))])"
    by (rule failed_round_keeps_state [THEN mp, THEN conjunct2]) (use c in blast)
  have "research_loop ?llm demo_loads ?tm ''q'' 1 3 (?st, [])
          = (?st, [LlmInvoked 1, LlmInvoked 2, LlmInvoked 3])"
    unfolding n 1 append_Nil 2 append_Cons 3 by simp
  with a b(2) c(2) show ?thesis by simp
qed

text \<open>
  Claim C9, as the code has it. A requested name that is not a key of the registry is
  dropped by the loop over the requested names: on its own it raises nothing and changes
  nothing, the loop over a request that holds it does exactly what it does on the request
  without it, the name gets no entry in \<^verbatim>\<open>tool_results\<close>, is not appended to
  \<^verbatim>\<open>tools_used\<close> and is not invoked, and the session state after the round is that of
  the same plan without the name. The stop evaluation comes before that loop and still
  counts the name: a round whose plan asks for it never converges, and it ends as the
  round of the plan without the name does except where that round converges, and there it
  runs to its end and the loop goes on.
\<close>

theorem unknown_tool_dropped:
  "tm name = None \<longrightarrow>
     call_tools tm query i [JStr name] (st, log) = (None, st, log) \<and>
     call_tools tm query i (before @ JStr name # after) sl
       = call_tools tm query i (before @ after) sl \<and>
     (call_tools tm query i names (st, log) = (e, st', log') \<longrightarrow>
        (name \<in> fst ` set (s_tool_results st') \<longleftrightarrow> name \<in> fst ` set (s_tool_results st)) \<and>
        (name \<in> set (s_tools_used st') \<longleftrightarrow> name \<in> set (s_tools_used st)) \<and>
        (name \<in> set (invoked_names log') \<longleftrightarrow> name \<in> set (invoked_names log))) \<and>
     (dict_get plan ''tools_used'' (JArr []) = JArr (before @ JStr name # after) \<and>
      dict_get plan' ''tools_used'' (JArr []) = JArr (before @ after) \<and>
      map_of plan' ''summary'' = map_of plan ''summary'' \<and>
      map_of plan' ''sources'' = map_of plan ''sources'' \<longrightarrow>
        snd (run_plan tm query i plan sl) = snd (run_plan tm query i plan' sl) \<and>
        fst (run_plan tm query i plan sl) \<noteq> Converged \<and>
        run_plan tm query i plan sl
          = (if fst (run_plan tm query i plan' sl) = Converged
             then (Completed, snd (run_plan tm query i plan' sl))
             else run_plan tm query i plan' sl))"
proof (intro impI conjI)
  assume u: "tm name = None"
  then show "call_tools tm query i [JStr name] (st, log) = (None, st, log)" by simp
  from u show "call_tools tm query i (before @ JStr name # after) sl
       = call_tools tm query i (before @ after) sl"
    by (rule call_tools_unknown)
  {
    assume c: "call_tools tm query i names (st, log) = (e, st', log')"
    from call_tools_unknown_absent [OF u c]
    show "name \<in> fst ` set (s_tool_results st') \<longleftrightarrow> name \<in> fst ` set (s_tool_results st)"
      and "name \<in> set (s_tools_used st') \<longleftrightarrow> name \<in> set (s_tools_used st)"
      and "name \<in> set (invoked_names log') \<longleftrightarrow> name \<in> set (invoked_names log)"
      by simp_all
  }
  {
    assume h: "dict_get plan ''tools_used'' (JArr []) = JArr (before @ JStr name # after) \<and>
      dict_get plan' ''tools_used'' (JArr []) = JArr (before @ after) \<and>
      map_of plan' ''summary'' = map_of plan ''summary'' \<and>
      map_of plan' ''sources'' = map_of plan ''sources''"
    have eq: "run_plan tm query i plan sl
          = (if fst (run_plan tm query i plan' sl) = Converged
             then (Completed, snd (run_plan tm query i plan' sl))
             else run_plan tm query i plan' sl)"
      using run_plan_unknown_end [of tm name plan before after plan' query i sl] u h by blast
    then show "run_plan tm query i plan sl
          = (if fst (run_plan tm query i plan' sl) = Converged
             then (Completed, snd (run_plan tm query i plan' sl))
             else run_plan tm query i plan' sl)" .
    show "snd (run_plan tm query i plan sl) = snd (run_plan tm query i plan' sl)"
      by (subst eq) simp
    show "fst (run_plan tm query i plan sl) \<noteq> Converged"
      by (subst eq) simp
  }
qed

theorem unknown_tool_dropped_witness:
  "tool_map demo_agent ''ghost_tool'' = None \<and>
   call_tools (tool_map demo_agent) ''q'' 1 [JStr ''ghost_tool''] (initial_state ''q'', [])
     = (None, initial_state ''q'', []) \<and>
   call_tools (tool_map demo_agent) ''q'' 1
       [JStr ''search_tool'', JStr ''ghost_tool'', JStr ''wiki_tool''] (initial_state ''q'', [])
     = (None,
        \<lparr>s_tools_used = [''search_tool'', ''wiki_tool''],
          s_tool_results = [(''search_tool'', ''Search error: timeout''),
                            (''wiki_tool'', ''Wikipedia: results'')],
          s_topic = ''q'', s_summary = JStr [], s_sources = JArr []\<rparr>,
        [ToolInvoked 1 ''search_tool'' (Returned ''Search error: timeout''),
         ToolInvoked 1 ''wiki_tool'' (Returned ''Wikipedia: results'')]) \<and>
   snd (run_plan (tool_map demo_agent) ''q'' 1
          [(''summary'', JStr ''X''), (''tools_used'', JArr [JStr ''ghost_tool''])]
          (initial_state ''q'', [LlmInvoked 1]))
     = snd (run_plan (tool_map demo_agent) ''q'' 1
              [(''summary'', JStr ''X''), (''tools_used'', JArr [])]
              (initial_state ''q'', [LlmInvoked 1]))"
proof -
  let ?tm = "tool_map demo_agent"
  have u: "?tm ''ghost_tool'' = None"
    by (simp add: demo_agent_def add_tool_def init_tools_def)
  note t = unknown_tool_dropped
             [where tm = ?tm and name = "''ghost_tool''" and query = "''q''" and i = 1
                and st = "initial_state ''q''" and log = "[]"
                and before = "[JStr ''search_tool'']" and after = "[JStr ''wiki_tool'']"
                and sl = "(initial_state ''q'', [])", THEN mp, OF u]
  from t have 1: "call_tools ?tm ''q'' 1 [JStr ''ghost_tool''] (initial_state ''q'', [])
     = (None, initial_state ''q'', [])" by (rule conjunct1)
  from t have "call_tools ?tm ''q'' 1 ([JStr ''search_tool''] @ JStr ''ghost_tool'' # [JStr ''wiki_tool''])
                 (initial_state ''q'', [])
     = call_tools ?tm ''q'' 1 ([JStr ''search_tool''] @ [JStr ''wiki_tool'']) (initial_state ''q'', [])"
    by (rule conjunct2 [THEN conjunct1])
  then have 2: "call_tools ?tm ''q'' 1
       [JStr ''search_tool'', JStr ''ghost_tool'', JStr ''wiki_tool''] (initial_state ''q'', [])
     = call_tools ?tm ''q'' 1 [JStr ''search_tool'', JStr ''wiki_tool''] (initial_state ''q'', [])"
    by (simp del: call_tools.simps)
  have p: "dict_get [(''summary'', JStr ''X''), (''tools_used'', JArr [JStr ''ghost_tool''])]
             ''tools_used'' (JArr []) = JArr ([] @ JStr ''ghost_tool'' # []) \<and>
      dict_get [(''summary'', JStr ''X''), (''tools_used'', JArr [])] ''tools_used'' (JArr [])
        = JArr ([] @ []) \<and>
      map_of [(''summary'', JStr ''X''), (''tools_used'', JArr [])] ''summary''
        = map_of [(''summary'', JStr ''X''), (''tools_used'', JArr [JStr ''ghost_tool''])]
            ''summary'' \<and>
      map_of [(''summary'', JStr ''X''), (''tools_used'', JArr [])] ''sources''
        = map_of [(''summary'', JStr ''X''), (''tools_used'', JArr [JStr ''ghost_tool''])]
            ''sources''"
    by (simp add: dict_get_def)
  note t' = unknown_tool_dropped
             [where tm = ?tm and name = "''ghost_tool''" and query = "''q''" and i = 1
                and before = "[]" and after = "[]"
                and sl = "(initial_state ''q'', [LlmInvoked 1])"
                and plan = "[(''summary'', JStr ''X''), (''tools_used'', JArr [JStr ''ghost_tool''])]"
                and plan' = "[(''summary'', JStr ''X''), (''tools_used'', JArr [])]",
              THEN mp, OF u, THEN conjunct2, THEN conjunct2, THEN conjunct2, THEN mp, OF p,
              THEN conjunct1]
  from u 1 2 t' show ?thesis unfolding ghost_call by simp
qed

text \<open>
  The claim as stated fails at the stop evaluation: with two tools used and a summary in
  the plan, the round of a plan that asks for one unregistered name runs to its end and
  the loop goes on, while the round of the same plan with an empty request converges.
\<close>

theorem unknown_tool_blocks_convergence:
  "tool_map demo_agent ''ghost_tool'' = None \<and>
   run_plan (tool_map demo_agent) ''q'' 3
     [(''summary'', JStr ''final''), (''tools_used'', JArr [JStr ''ghost_tool''])]
     (\<lparr>s_tools_used = [''search_tool'', ''wiki_tool''],
       s_tool_results = [(''search_tool'', ''Search error: timeout''),
                         (''wiki_tool'', ''Wikipedia: results'')],
       s_topic = ''q'', s_summary = JStr [], s_sources = JArr []\<rparr>, [LlmInvoked 3])
   = (Completed,
      \<lparr>s_tools_used = [''search_tool'', ''wiki_tool''],
        s_tool_results = [(''search_tool'', ''Search error: timeout''),
                          (''wiki_tool'', ''Wikipedia: results'')],
        s_topic = ''q'', s_summary = JStr ''final'', s_sources = JArr []\<rparr>, [LlmInvoked 3]) \<and>
   run_plan (tool_map demo_agent) ''q'' 3
     [(''summary'', JStr ''final''), (''tools_used'', JArr [])]
     (\<lparr>s_tools_used = [''search_tool'', ''wiki_tool''],
       s_tool_results = [(''search_tool'', ''Search error: timeout''),
                         (''wiki_tool'', ''Wikipedia: results'')],
       s_topic = ''q'', s_summary = JStr [], s_sources = JArr []\<rparr>, [LlmInvoked 3])
   = (Converged,
      \<lparr>s_tools_used = [''search_tool'', ''wiki_tool''],
        s_tool_results = [(''search_tool'', ''Search error: timeout''),
                          (''wiki_tool'', ''Wikipedia: results'')],
        s_topic = ''q'', s_summary = JStr ''final'', s_sources = JArr []\<rparr>, [LlmInvoked 3])"
  by (simp add: demo_eval)


text \<open>
  Claim C10. Whenever \<^verbatim>\<open>research\<close> returns a result, the topic of the result is the
  query: the state's topic is set from the query and no round writes it. A
  \<^verbatim>\<open>"topic"\<close> entry in the model's parsed output is never read: setting it to any value
  in every parsed plan leaves the whole outcome of \<^verbatim>\<open>research\<close> unchanged.
\<close>

theorem topic_is_query:
  "(research llm loads agent query max_iterations = Inr (response, agent') \<longrightarrow>
      topic response = query) \<and>
   research llm (\<lambda>t. map_option (with_topic v) (loads t)) agent query max_iterations
     = research llm loads agent query max_iterations"
proof
  show "research llm loads agent query max_iterations = Inr (response, agent') \<longrightarrow>
      topic response = query"
    using research_topic by blast
  show "research llm (\<lambda>t. map_option (with_topic v) (loads t)) agent query max_iterations
     = research llm loads agent query max_iterations"
    by (simp add: research_def research_loop_with_topic)
qed

theorem topic_is_query_witness:
  "demo_loads (extract_json ''{topic}'')
     = Some (JObj [(''topic'', JStr ''another topic''), (''summary'', JStr ''X''),
                   (''sources'', JArr []), (''tools_used'', JArr [])]) \<and>
   research (always ''{topic}'') demo_loads demo_agent ''q'' 1
     = Inr (\<lparr>topic = ''q'', summary = ''X'', sources = [], tools_used = []\<rparr>,
            demo_agent\<lparr>conversation_history :=
              [\<lparr>h_query = ''q'', h_summary = ''X'', h_sources = []\<rparr>]\<rparr>) \<and>
   topic \<lparr>topic = ''q'', summary = ''X'', sources = [], tools_used = []\<rparr> = ''q''"
proof -
  let ?response = "\<lparr>topic = ''q'', summary = ''X'', sources = [], tools_used = []\<rparr>"
  let ?agent = "demo_agent\<lparr>conversation_history :=
              [\<lparr>h_query = ''q'', h_summary = ''X'', h_sources = []\<rparr>]\<rparr>"
  have n: "nat 1 = Suc 0" by simp
  have r: "research (always ''{topic}'') demo_loads demo_agent ''q'' 1 = Inr (?response, ?agent)"
    unfolding research_def n topic_run
    by (simp add: new_response_def py_or_def demo_agent_def add_tool_def)
  from topic_is_query [where llm = "always ''{topic}''" and loads = demo_loads
                         and agent = demo_agent and query = "''q''" and max_iterations = 1
                         and response = ?response and agent' = ?agent,
                       THEN conjunct1, THEN mp, OF r]
  have "topic ?response = ''q''" .
  with r show ?thesis by (simp add: demo_extract demo_loads_def)
qed


end
